theory Spec2Isabelle
  imports Complex_Main "HOL-Library.Word" "HOL-Library.AList"
begin

section \<open>Voice-activity engine (\<open>backend/speech_client.py\<close>)\<close>

text \<open>
  Durations are Python floats. A float value is a real number here, and the two float
  operations the engine uses are parameters of the model about which nothing is assumed:
  \<open>fadd\<close>, the sum of two floats as Python rounds it, and \<open>fdiv\<close>, the true division of
  two integers. Comparisons of floats are exact. The theorems hold for every choice of the
  two operations. The concrete inputs are evaluated with the exact operations, on dyadic
  values for which the float operations are exact as well.
\<close>

record FloatOps =
  fadd :: "real \<Rightarrow> real \<Rightarrow> real"
  fdiv :: "int \<Rightarrow> int \<Rightarrow> real"

definition exact_ops :: FloatOps where
  "exact_ops = \<lparr> fadd = (\<lambda>x y. x + y), fdiv = (\<lambda>a b. real_of_int a / real_of_int b) \<rparr>"

text \<open>
  An audio frame is used by the engine through four stored attributes: the raw sample
  bytes \<open>data\<close>, \<open>sample_rate\<close>, \<open>num_channels\<close> and \<open>samples_per_channel\<close>, and through
  its \<open>duration\<close>, which the frame class of the audio library computes on every access as
  \<open>samples_per_channel / sample_rate\<close>, so that reading it raises ZeroDivisionError when
  the sample rate is 0.
\<close>

type_synonym byte = "8 word"

record AudioFrame =
  data :: "byte list"
  sample_rate :: int
  num_channels :: int
  samples_per_channel :: int

datatype py_error = TypeError | ValueError | ZeroDivisionError

definition duration :: "FloatOps \<Rightarrow> AudioFrame \<Rightarrow> py_error + real" where
  "duration ops frame =
     (if sample_rate frame = 0 then Inl ZeroDivisionError
      else Inr (fdiv ops (samples_per_channel frame) (sample_rate frame)))"

text \<open>
  \<open>memoryview(raw).cast("h")\<close>: the bytes read as native 16-bit signed samples (low byte
  first). Python raises TypeError when the length is not a multiple of the item size.
\<close>

definition sample_h :: "byte \<Rightarrow> byte \<Rightarrow> int" where
  "sample_h lo hi =
     (let v = uint lo + 256 * uint hi in if v \<ge> 32768 then v - 65536 else v)"

fun cast_h :: "byte list \<Rightarrow> py_error + int list" where
  "cast_h [] = Inr []"
| "cast_h [b] = Inl TypeError"
| "cast_h (lo # hi # rest) =
     (case cast_h rest of Inl e \<Rightarrow> Inl e | Inr ss \<Rightarrow> Inr (sample_h lo hi # ss))"

text \<open>\<open>max(abs(sample) for sample in view)\<close>; Python raises ValueError on an empty sequence.\<close>

fun max_abs :: "int list \<Rightarrow> py_error + int" where
  "max_abs [] = Inl ValueError"
| "max_abs (x # xs) = Inr (fold (\<lambda>y m. max m \<bar>y\<bar>) xs \<bar>x\<bar>)"

definition frame_amplitude :: "AudioFrame \<Rightarrow> py_error + int" where
  "frame_amplitude frame =
     (let raw = data frame in
      if raw = [] \<or> length raw < 2 then Inr 0
      else
        let raw' = (if length raw mod 2 \<noteq> 0 then take (length raw - 1) raw else raw) in
        case cast_h raw' of
          Inl e \<Rightarrow> Inl e
        | Inr view \<Rightarrow> if view = [] then Inr 0 else max_abs view)"

text \<open>
  \<open>frame.duration or (frame.samples_per_channel / frame.sample_rate if frame.sample_rate
  else 0.0)\<close>: the attribute is read first, and the guard on the sample rate is reached
  only when that read has returned a zero.
\<close>

definition frame_duration :: "FloatOps \<Rightarrow> AudioFrame \<Rightarrow> py_error + real" where
  "frame_duration ops frame =
     (case duration ops frame of
        Inl e \<Rightarrow> Inl e
      | Inr d \<Rightarrow>
          if d \<noteq> 0 then Inr d
          else if sample_rate frame \<noteq> 0
            then Inr (fdiv ops (samples_per_channel frame) (sample_rate frame))
            else Inr 0)"

datatype VADEventType = START_OF_SPEECH | END_OF_SPEECH

text \<open>
  The event the engine sends. Its \<open>timestamp\<close> field is the wall clock at the moment of
  sending; it is read by no operation of the engine and is left out of the record.
\<close>

record VADEvent =
  ev_type :: VADEventType
  ev_samples_index :: int
  ev_speech_duration :: real
  ev_silence_duration :: real
  ev_frames :: "AudioFrame list"

record VADConfig =
  threshold :: int
  min_speech_duration :: real
  silence_timeout :: real

record VADStream =
  speech_frames :: "AudioFrame list"
  pending_frames :: "AudioFrame list"
  pending_duration :: real
  speech_duration :: real
  silence_accumulated :: real
  speech_started :: bool
  speech_start_index :: int
  samples_index :: int

definition init_stream :: VADStream where
  "init_stream =
     \<lparr> speech_frames = [], pending_frames = [], pending_duration = 0,
       speech_duration = 0, silence_accumulated = 0, speech_started = False,
       speech_start_index = 0, samples_index = 0 \<rparr>"

text \<open>
  Every operation returns the new stream state together with the events it sent on the
  event channel, in order.
\<close>

definition start_speech :: "VADStream \<Rightarrow> VADStream \<times> VADEvent list" where
  "start_speech s =
     (let s1 = s\<lparr> speech_started := True,
                  speech_start_index := samples_index s,
                  speech_frames := pending_frames s,
                  speech_duration := pending_duration s,
                  pending_frames := [],
                  pending_duration := 0 \<rparr>
      in (s1, [\<lparr> ev_type = START_OF_SPEECH,
                  ev_samples_index = speech_start_index s1,
                  ev_speech_duration = 0,
                  ev_silence_duration = 0,
                  ev_frames = speech_frames s1 \<rparr>]))"

definition emit_end :: "VADStream \<Rightarrow> VADStream \<times> VADEvent list" where
  "emit_end s =
     (if \<not> speech_started s then (s, [])
      else
        (s\<lparr> speech_started := False,
            speech_frames := [],
            speech_duration := 0,
            silence_accumulated := 0,
            pending_frames := [],
            pending_duration := 0 \<rparr>,
         [\<lparr> ev_type = END_OF_SPEECH,
            ev_samples_index = speech_start_index s,
            ev_speech_duration = speech_duration s,
            ev_silence_duration = silence_accumulated s,
            ev_frames = speech_frames s \<rparr>]))"

text \<open>
  \<open>_process_frame\<close>: the amplitude is computed first, then the duration; an exception of
  either leaves the stream as it was.
\<close>

definition process_frame ::
  "FloatOps \<Rightarrow> VADConfig \<Rightarrow> VADStream \<Rightarrow> AudioFrame \<Rightarrow> py_error + (VADStream \<times> VADEvent list)" where
  "process_frame ops cfg s frame =
     (case frame_amplitude frame of
        Inl e \<Rightarrow> Inl e
      | Inr amplitude \<Rightarrow>
         (case frame_duration ops frame of
            Inl e \<Rightarrow> Inl e
          | Inr dur \<Rightarrow>
              let (s1, evs1, silence_exceeded) =
                (if amplitude \<ge> threshold cfg then
                   let s0 = s\<lparr> silence_accumulated := 0 \<rparr> in
                   if speech_started s0 then
                     (s0\<lparr> speech_frames := speech_frames s0 @ [frame],
                          speech_duration := fadd ops (speech_duration s0) dur \<rparr>, [], False)
                   else
                     let sp = s0\<lparr> pending_frames := pending_frames s0 @ [frame],
                                  pending_duration := fadd ops (pending_duration s0) dur \<rparr> in
                     if pending_duration sp \<ge> min_speech_duration cfg then
                       (let (st, evs) = start_speech sp in (st, evs, False))
                     else (sp, [], False)
                 else if speech_started s then
                   let sq = s\<lparr> silence_accumulated := fadd ops (silence_accumulated s) dur \<rparr> in
                   (sq, [], silence_accumulated sq \<ge> silence_timeout cfg)
                 else (s, [], False));
                  s2 = s1\<lparr> samples_index := samples_index s1 + samples_per_channel frame \<rparr>
              in if silence_exceeded
                 then (let (s3, evs3) = emit_end s2 in Inr (s3, evs1 @ evs3))
                 else Inr (s2, evs1)))"

text \<open>
  The items of the input channel: a frame or the flush sentinel. The main task handles
  them in order; whatever way the loop ends, its \<open>finally\<close> clause closes an open segment.
\<close>

datatype Chunk = Frame AudioFrame | FlushSentinel

definition flush :: "VADStream \<Rightarrow> VADStream \<times> VADEvent list" where
  "flush s = (if speech_started s then emit_end s else (s, []))"

definition handle_chunk ::
  "FloatOps \<Rightarrow> VADConfig \<Rightarrow> VADStream \<Rightarrow> Chunk \<Rightarrow> py_error + (VADStream \<times> VADEvent list)" where
  "handle_chunk ops cfg s chunk =
     (case chunk of FlushSentinel \<Rightarrow> Inr (flush s) | Frame f \<Rightarrow> process_frame ops cfg s f)"

text \<open>
  The loop of the main task from a given state: the exception that ended it (if any),
  the state reached and the events sent.
\<close>

fun run_chunks ::
  "FloatOps \<Rightarrow> VADConfig \<Rightarrow> VADStream \<Rightarrow> Chunk list \<Rightarrow>
   py_error option \<times> VADStream \<times> VADEvent list" where
  "run_chunks ops cfg s [] = (None, s, [])"
| "run_chunks ops cfg s (c # cs) =
     (case handle_chunk ops cfg s c of
        Inl e \<Rightarrow> (Some e, s, [])
      | Inr (s1, evs1) \<Rightarrow>
          (case run_chunks ops cfg s1 cs of (r, s2, evs2) \<Rightarrow> (r, s2, evs1 @ evs2)))"

definition main_task ::
  "FloatOps \<Rightarrow> VADConfig \<Rightarrow> Chunk list \<Rightarrow> py_error option \<times> VADStream \<times> VADEvent list" where
  "main_task ops cfg chunks =
     (case run_chunks ops cfg init_stream chunks of
        (r, s, evs) \<Rightarrow> (case flush s of (s1, evs1) \<Rightarrow> (r, s1, evs @ evs1)))"

section \<open>Transcript extraction and the transcription adapter\<close>

text \<open>
  The parsed response body: what \<open>response.json()\<close> can return, or the response text.
  A dict is an association list read with \<open>map_of\<close>, which is \<open>body.get(key)\<close>.
\<close>

datatype json =
    JNull
  | JBool bool
  | JNum real
  | JStr string
  | JList "json list"
  | JDict "(string \<times> json) list"

text \<open>
  \<open>str.strip()\<close>. A character is a code point below 256; the whitespace characters among
  these are the ASCII ones and U+0085 and U+00A0.
\<close>

definition is_space :: "char \<Rightarrow> bool" where
  "is_space c \<longleftrightarrow> (of_char c :: nat) \<in> {9, 10, 11, 12, 13, 28, 29, 30, 31, 32, 133, 160}"

definition strip :: "string \<Rightarrow> string" where
  "strip s = rev (dropWhile is_space (rev (dropWhile is_space s)))"

text \<open>
  The first loop over a dict: the first key of \<open>keys\<close> whose value is a string that is
  not blank, stripped.
\<close>

fun first_text_key :: "(string \<times> json) list \<Rightarrow> string list \<Rightarrow> string option" where
  "first_text_key body [] = None"
| "first_text_key body (key # keys) =
     (case map_of body key of
        Some (JStr v) \<Rightarrow> if strip v \<noteq> [] then Some (strip v) else first_text_key body keys
      | _ \<Rightarrow> first_text_key body keys)"

text \<open>
  \<open>_extract_transcription\<close>. \<open>extract_parts\<close> is the loop \<open>for part in body\<close> (and
  \<open>for item in value\<close>), which returns the first truthy candidate; \<open>extract_nested\<close> is
  the loop over the list-valued keys of a dict.
\<close>

function extract_transcription :: "json \<Rightarrow> string option"
  and extract_parts :: "json list \<Rightarrow> string option"
  and extract_nested :: "(string \<times> json) list \<Rightarrow> string list \<Rightarrow> string option"
where
  "extract_transcription (JStr body) = (let text = strip body in if text \<noteq> [] then Some text else None)"
| "extract_transcription (JList body) = extract_parts body"
| "extract_transcription (JDict body) =
     (case first_text_key body [''text'', ''transcript'', ''transcription'', ''result'', ''output''] of
        Some v \<Rightarrow> Some v
      | None \<Rightarrow> extract_nested body [''segments'', ''alternatives'', ''data''])"
| "extract_transcription JNull = None"
| "extract_transcription (JBool b) = None"
| "extract_transcription (JNum n) = None"
| "extract_parts [] = None"
| "extract_parts (part # rest) =
     (case extract_transcription part of
        Some candidate \<Rightarrow> if candidate \<noteq> [] then Some candidate else extract_parts rest
      | None \<Rightarrow> extract_parts rest)"
| "extract_nested body [] = None"
| "extract_nested body (key # keys) =
     (case map_of body key of
        Some (JList value) \<Rightarrow>
          (case extract_parts value of
             Some candidate \<Rightarrow> Some candidate
           | None \<Rightarrow> extract_nested body keys)
      | _ \<Rightarrow> extract_nested body keys)"
  by pat_completeness auto
termination
proof -
  have sz: "map_of d k = Some v \<Longrightarrow> size v < Suc (size_list (size_prod (\<lambda>_. 0) size) d)"
    for d :: "(string \<times> json) list" and k v
    by (induction d) (auto split: if_splits)
  show ?thesis
    apply (relation "measures
      [\<lambda>x. case x of Inl j \<Rightarrow> size j
                    | Inr (Inl js) \<Rightarrow> size_list size js
                    | Inr (Inr (d, ks)) \<Rightarrow> size (JDict d),
       \<lambda>x. case x of Inl j \<Rightarrow> 4
                    | Inr (Inl js) \<Rightarrow> 0
                    | Inr (Inr (d, ks)) \<Rightarrow> length ks]")
    apply simp_all
    apply (drule sz)
    apply simp
    done
qed

text \<open>\<open>_extract_language\<close>: the same search for a language code, on dicts only.\<close>

function extract_language :: "json \<Rightarrow> string option"
  and language_items :: "json list \<Rightarrow> string option"
  and language_nested :: "(string \<times> json) list \<Rightarrow> string list \<Rightarrow> string option"
where
  "extract_language (JDict body) =
     (case first_text_key body [''language'', ''lang'', ''detected_language''] of
        Some v \<Rightarrow> Some v
      | None \<Rightarrow> language_nested body [''segments'', ''alternatives'', ''data''])"
| "extract_language (JStr body) = None"
| "extract_language (JList body) = None"
| "extract_language JNull = None"
| "extract_language (JBool b) = None"
| "extract_language (JNum n) = None"
| "language_items [] = None"
| "language_items (item # rest) =
     (case extract_language item of
        Some candidate \<Rightarrow> if candidate \<noteq> [] then Some candidate else language_items rest
      | None \<Rightarrow> language_items rest)"
| "language_nested body [] = None"
| "language_nested body (key # keys) =
     (case map_of body key of
        Some (JList items) \<Rightarrow>
          (case language_items items of
             Some candidate \<Rightarrow> Some candidate
           | None \<Rightarrow> language_nested body keys)
      | _ \<Rightarrow> language_nested body keys)"
  by pat_completeness auto
termination
proof -
  have sz: "map_of d k = Some v \<Longrightarrow> size v < Suc (size_list (size_prod (\<lambda>_. 0) size) d)"
    for d :: "(string \<times> json) list" and k v
    by (induction d) (auto split: if_splits)
  show ?thesis
    apply (relation "measures
      [\<lambda>x. case x of Inl j \<Rightarrow> size j
                    | Inr (Inl js) \<Rightarrow> size_list size js
                    | Inr (Inr (d, ks)) \<Rightarrow> size (JDict d),
       \<lambda>x. case x of Inl j \<Rightarrow> 4
                    | Inr (Inl js) \<Rightarrow> 0
                    | Inr (Inr (d, ks)) \<Rightarrow> length ks]")
    apply simp_all
    apply (drule sz)
    apply simp
    done
qed

text \<open>
  The HTTP exchange of the adapters. What the client's \<open>post\<close> call does is an input of the
  model: it returns a response, or raises a timeout or a transport error. Of a response
  the adapters read the status code, the headers, the body parsed as JSON (\<open>None\<close> when
  \<open>response.json()\<close> raises ValueError), the body as text and the raw content.
  \<open>raise_for_status\<close> lets the 2xx codes pass. The headers are held with their names in
  lower case, as the client normalises them for its case-insensitive lookup; the adapters
  look up lower-case names only.
\<close>

record HttpResponse =
  status_code :: int
  headers :: "(string \<times> string) list"
  json_body :: "json option"
  body_text :: string
  content :: "byte list"

datatype PostOutcome = Responded HttpResponse | TimeoutException | RequestError

datatype api_error =
    APIStatusError int "string option" string
  | APITimeoutError
  | APIConnectionError

definition is_success :: "HttpResponse \<Rightarrow> bool" where
  "is_success response \<longleftrightarrow> 200 \<le> status_code response \<and> status_code response \<le> 299"

record DrascomSttOptions =
  stt_base_url :: string
  stt_model :: string
  stt_language :: "string option"
  stt_response_format :: string
  stt_api_key :: "string option"
  stt_timeout :: real

record SpeechData =
  sd_text :: string
  sd_language :: string

datatype SpeechEventType = FINAL_TRANSCRIPT

record SpeechEvent =
  se_type :: SpeechEventType
  se_request_id :: string
  se_alternatives :: "SpeechData list"
  se_audio_duration :: real

text \<open>The form fields of the request; \<open>language\<close> is the caller's hint, \<open>None\<close> when not given.\<close>

definition stt_payload :: "DrascomSttOptions \<Rightarrow> string option \<Rightarrow> (string \<times> string) list" where
  "stt_payload opts language =
     [(''model'', stt_model opts), (''response_format'', stt_response_format opts)] @
     (case stt_language opts of
        Some l \<Rightarrow> if l \<noteq> [] then [(''language'', l)]
                  else (case language of Some h \<Rightarrow> [(''language'', h)] | None \<Rightarrow> [])
      | None \<Rightarrow> (case language of Some h \<Rightarrow> [(''language'', h)] | None \<Rightarrow> []))"

text \<open>Python's \<open>a or b\<close> on optional strings: \<open>None\<close> and the empty string are falsy.\<close>

definition str_or :: "string option \<Rightarrow> string option \<Rightarrow> string option" where
  "str_or a b = (case a of Some x \<Rightarrow> if x \<noteq> [] then Some x else b | None \<Rightarrow> b)"

definition header_get :: "HttpResponse \<Rightarrow> string \<Rightarrow> string \<Rightarrow> string" where
  "header_get response name dflt = (case map_of (headers response) name of Some v \<Rightarrow> v | None \<Rightarrow> dflt)"

text \<open>\<open>response.json()\<close>, or \<open>response.text\<close> when that raises ValueError.\<close>

definition response_body :: "HttpResponse \<Rightarrow> json" where
  "response_body response =
     (case json_body response of Some j \<Rightarrow> j | None \<Rightarrow> JStr (body_text response))"

text \<open>
  \<open>DrascomSTT._recognize_impl\<close>, from the outcome of the POST on: \<open>audio_duration\<close> is the
  duration of the buffer that was sent.
\<close>

definition recognize_impl ::
  "DrascomSttOptions \<Rightarrow> string option \<Rightarrow> real \<Rightarrow> PostOutcome \<Rightarrow> api_error + SpeechEvent" where
  "recognize_impl opts language audio_duration outcome =
     (case outcome of
        TimeoutException \<Rightarrow> Inl APITimeoutError
      | RequestError \<Rightarrow> Inl APIConnectionError
      | Responded response \<Rightarrow>
          if \<not> is_success response then
            Inl (APIStatusError (status_code response)
                   (map_of (headers response) ''x-request-id'') (body_text response))
          else
            let body = response_body response;
                transcript = extract_transcription body;
                detected_language = extract_language body;
                language_code =
                  (case str_or detected_language (str_or (stt_language opts) (str_or language (Some [])))
                   of Some l \<Rightarrow> l | None \<Rightarrow> [])
            in (case transcript of
                  Some t \<Rightarrow>
                    if t \<noteq> [] then
                      Inr \<lparr> se_type = FINAL_TRANSCRIPT,
                            se_request_id = header_get response ''x-request-id'' [],
                            se_alternatives = [\<lparr> sd_text = t, sd_language = language_code \<rparr>],
                            se_audio_duration = audio_duration \<rparr>
                    else
                      Inr \<lparr> se_type = FINAL_TRANSCRIPT,
                            se_request_id = header_get response ''x-request-id'' [],
                            se_alternatives = [],
                            se_audio_duration = audio_duration \<rparr>
                | None \<Rightarrow>
                    Inr \<lparr> se_type = FINAL_TRANSCRIPT,
                          se_request_id = header_get response ''x-request-id'' [],
                          se_alternatives = [],
                          se_audio_duration = audio_duration \<rparr>))"

section \<open>Synthesis adapter\<close>

record DrascomTtsOptions =
  tts_base_url :: string
  tts_model :: string
  tts_voice :: string
  tts_speed :: real
  tts_response_format :: string
  tts_api_key :: "string option"
  tts_timeout :: real

text \<open>
  \<open>DrascomTTS.update_options\<close>: every argument is optional. A string argument is applied
  when it is truthy (given and not empty), the speed when it is not \<open>None\<close>.
\<close>

definition update_options ::
  "string option \<Rightarrow> string option \<Rightarrow> real option \<Rightarrow> string option \<Rightarrow>
   DrascomTtsOptions \<Rightarrow> DrascomTtsOptions" where
  "update_options model voice speed response_format opts =
     (let o1 = (case model of Some m \<Rightarrow> if m \<noteq> [] then opts\<lparr> tts_model := m \<rparr> else opts
                             | None \<Rightarrow> opts);
          o2 = (case voice of Some v \<Rightarrow> if v \<noteq> [] then o1\<lparr> tts_voice := v \<rparr> else o1
                             | None \<Rightarrow> o1);
          o3 = (case speed of Some x \<Rightarrow> o2\<lparr> tts_speed := x \<rparr> | None \<Rightarrow> o2);
          o4 = (case response_format of
                  Some f \<Rightarrow> if f \<noteq> [] then o3\<lparr> tts_response_format := f \<rparr> else o3
                | None \<Rightarrow> o3)
      in o4)"

text \<open>The JSON body that \<open>_DrascomTTSSynthesizedStream._run\<close> posts.\<close>

record TtsPayload =
  p_model :: string
  p_voice :: string
  p_input :: string
  p_response_format :: string
  p_speed :: real

definition tts_payload :: "DrascomTtsOptions \<Rightarrow> string \<Rightarrow> TtsPayload" where
  "tts_payload opts input_text =
     \<lparr> p_model = tts_model opts, p_voice = tts_voice opts, p_input = input_text,
       p_response_format = tts_response_format opts, p_speed = tts_speed opts \<rparr>"

text \<open>What \<open>_run\<close> hands to the output emitter: one chunk carrying the whole body.\<close>

record SynthesizedAudio =
  sa_request_id :: string
  sa_mime_type :: string
  sa_audio :: "byte list"

definition tts_run :: "PostOutcome \<Rightarrow> api_error + SynthesizedAudio" where
  "tts_run outcome =
     (case outcome of
        TimeoutException \<Rightarrow> Inl APITimeoutError
      | RequestError \<Rightarrow> Inl APIConnectionError
      | Responded response \<Rightarrow>
          if \<not> is_success response then
            Inl (APIStatusError (status_code response)
                   (map_of (headers response) ''x-request-id'') (body_text response))
          else
            Inr \<lparr> sa_request_id = header_get response ''x-request-id'' [],
                  sa_mime_type = header_get response ''content-type'' ''audio/mpeg'',
                  sa_audio = content response \<rparr>)"

section \<open>Session registry (\<open>backend/session.py\<close>)\<close>

text \<open>
  The values typed \<open>Any\<close> (the session and agent handles, the metadata values) are of an
  arbitrary type \<open>'a\<close>. \<open>datetime.now()\<close> is an argument of the operations that read it.
\<close>

record 'a SessionInfo =
  room_name :: string
  user_identity :: string
  user_name :: string
  created_at :: real
  agent_session :: "'a option"
  agent :: "'a option"
  metadata :: "(string \<times> 'a) list"

text \<open>
  The registry: the two dicts, in insertion order, and whether the room lock is held.
  Assignment to a key is \<open>AList.update\<close> (the value is replaced in place, or the entry is
  added at the end) and \<open>pop\<close> is \<open>AList.delete\<close>.
\<close>

record 'a SessionRegistry =
  sessions :: "(string \<times> 'a SessionInfo) list"
  room_lock_locked :: bool
  greeting_times :: "(string \<times> real) list"

definition new_registry :: "'a SessionRegistry" where
  "new_registry = \<lparr> sessions = [], room_lock_locked = False, greeting_times = [] \<rparr>"

text \<open>
  The effects of the operations on the registry, one atomic step each: acquiring and
  releasing the room lock, assigning a record to a room, popping a room, and assigning a
  greeting time. An operation is the list of its steps in the order of the source.
  Acquiring is possible only while the lock is free: a task that reaches
  \<open>async with self._room_lock\<close> while the lock is held is suspended there.
\<close>

datatype 'a Action =
    Acquire
  | Release
  | StoreSession string "'a SessionInfo"
  | PopSession string
  | StoreGreeting string real

definition enabled :: "'a Action \<Rightarrow> 'a SessionRegistry \<Rightarrow> bool" where
  "enabled act reg = (case act of Acquire \<Rightarrow> \<not> room_lock_locked reg | _ \<Rightarrow> True)"

fun perform :: "'a Action \<Rightarrow> 'a SessionRegistry \<Rightarrow> 'a SessionRegistry" where
  "perform Acquire reg = reg\<lparr> room_lock_locked := True \<rparr>"
| "perform Release reg = reg\<lparr> room_lock_locked := False \<rparr>"
| "perform (StoreSession room session) reg =
     reg\<lparr> sessions := AList.update room session (sessions reg) \<rparr>"
| "perform (PopSession room) reg = reg\<lparr> sessions := AList.delete room (sessions reg) \<rparr>"
| "perform (StoreGreeting identity now) reg =
     reg\<lparr> greeting_times := AList.update identity now (greeting_times reg) \<rparr>"

text \<open>\<open>async with self._room_lock:\<close> around a body.\<close>

definition with_room_lock :: "'a Action list \<Rightarrow> 'a Action list" where
  "with_room_lock body = Acquire # body @ [Release]"

text \<open>
  One task running its steps without any other task in between. The result is \<open>None\<close>
  when it has to wait for the lock, which nobody releases then.
\<close>

fun run_task :: "'a Action list \<Rightarrow> 'a SessionRegistry \<Rightarrow> 'a SessionRegistry option" where
  "run_task [] reg = Some reg"
| "run_task (act # rest) reg =
     (if enabled act reg then run_task rest (perform act reg) else None)"

text \<open>The record \<open>register\<close> builds.\<close>

definition new_session ::
  "real \<Rightarrow> string \<Rightarrow> string \<Rightarrow> string \<Rightarrow> 'a option \<Rightarrow> 'a option \<Rightarrow> (string \<times> 'a) list option \<Rightarrow>
   'a SessionInfo" where
  "new_session now room identity name a_session a_agent meta =
     \<lparr> room_name = room, user_identity = identity, user_name = name,
       created_at = now, agent_session = a_session, agent = a_agent,
       metadata = (case meta of Some m \<Rightarrow> m | None \<Rightarrow> []) \<rparr>"

definition register_task ::
  "real \<Rightarrow> string \<Rightarrow> string \<Rightarrow> string \<Rightarrow> 'a option \<Rightarrow> 'a option \<Rightarrow> (string \<times> 'a) list option \<Rightarrow>
   'a Action list" where
  "register_task now room identity name a_session a_agent meta =
     with_room_lock [StoreSession room (new_session now room identity name a_session a_agent meta)]"

text \<open>\<open>register\<close> returns the record it has stored.\<close>

definition register ::
  "real \<Rightarrow> string \<Rightarrow> string \<Rightarrow> string \<Rightarrow> 'a option \<Rightarrow> 'a option \<Rightarrow> (string \<times> 'a) list option \<Rightarrow>
   'a SessionRegistry \<Rightarrow> ('a SessionInfo \<times> 'a SessionRegistry) option" where
  "register now room identity name a_session a_agent meta reg =
     (case run_task (register_task now room identity name a_session a_agent meta) reg of
        None \<Rightarrow> None
      | Some reg1 \<Rightarrow> Some (new_session now room identity name a_session a_agent meta, reg1))"

definition unregister_task :: "string \<Rightarrow> 'a Action list" where
  "unregister_task room = with_room_lock [PopSession room]"

text \<open>\<open>unregister\<close> returns what \<open>pop(room_name, None)\<close> gives: the record of the room, if any.\<close>

definition unregister ::
  "string \<Rightarrow> 'a SessionRegistry \<Rightarrow> ('a SessionInfo option \<times> 'a SessionRegistry) option" where
  "unregister room reg =
     (case run_task (unregister_task room) reg of
        None \<Rightarrow> None
      | Some reg1 \<Rightarrow> Some (map_of (sessions reg) room, reg1))"

definition get :: "'a SessionRegistry \<Rightarrow> string \<Rightarrow> 'a SessionInfo option" where
  "get reg room = map_of (sessions reg) room"

definition get_by_user :: "'a SessionRegistry \<Rightarrow> string \<Rightarrow> 'a SessionInfo option" where
  "get_by_user reg identity = find (\<lambda>session. user_identity session = identity) (map snd (sessions reg))"

definition list_sessions :: "'a SessionRegistry \<Rightarrow> 'a SessionInfo list" where
  "list_sessions reg = map snd (sessions reg)"

definition active_count :: "'a SessionRegistry \<Rightarrow> nat" where
  "active_count reg = length (sessions reg)"

definition should_greet :: "real \<Rightarrow> 'a SessionRegistry \<Rightarrow> string \<Rightarrow> real \<Rightarrow> bool" where
  "should_greet now reg identity min_seconds =
     (case map_of (greeting_times reg) identity of
        None \<Rightarrow> True
      | Some last_greeted_at \<Rightarrow> now - last_greeted_at \<ge> min_seconds)"

text \<open>\<open>record_greeting\<close> is a plain method with one assignment and no \<open>async with\<close>.\<close>

definition record_greeting_task :: "real \<Rightarrow> string \<Rightarrow> 'a Action list" where
  "record_greeting_task now identity = [StoreGreeting identity now]"

definition record_greeting :: "real \<Rightarrow> string \<Rightarrow> 'a SessionRegistry \<Rightarrow> 'a SessionRegistry" where
  "record_greeting now identity reg = perform (StoreGreeting identity now) reg"

text \<open>A sequence of registry operations, each run to its end before the next one starts.\<close>

datatype 'a RegistryOp =
    Register real string string string "'a option" "'a option" "(string \<times> 'a) list option"
  | Unregister string
  | RecordGreeting real string

definition apply_op :: "'a RegistryOp \<Rightarrow> 'a SessionRegistry \<Rightarrow> 'a SessionRegistry option" where
  "apply_op op reg =
     (case op of
        Register now room identity name s a m \<Rightarrow>
          map_option snd (register now room identity name s a m reg)
      | Unregister room \<Rightarrow> map_option snd (unregister room reg)
      | RecordGreeting now identity \<Rightarrow> Some (record_greeting now identity reg))"

fun apply_ops :: "'a RegistryOp list \<Rightarrow> 'a SessionRegistry \<Rightarrow> 'a SessionRegistry option" where
  "apply_ops [] reg = Some reg"
| "apply_ops (op # ops) reg =
     (case apply_op op reg of None \<Rightarrow> None | Some reg1 \<Rightarrow> apply_ops ops reg1)"

text \<open>
  Operations running as concurrent tasks. A configuration is the registry and, for each
  task, the steps it still has to do. A schedule names the task that moves next; a task
  that is finished, or waits for the lock, does not move. Every step boundary is a
  possible switch, which covers the switches of the event loop.
\<close>

fun task_of :: "'a RegistryOp \<Rightarrow> 'a Action list" where
  "task_of (Register now room identity name s a m) = register_task now room identity name s a m"
| "task_of (Unregister room) = unregister_task room"
| "task_of (RecordGreeting now identity) = record_greeting_task now identity"

definition step_task ::
  "nat \<Rightarrow> 'a SessionRegistry \<times> 'a Action list list \<Rightarrow> 'a SessionRegistry \<times> 'a Action list list" where
  "step_task i cfg =
     (case cfg of (reg, pool) \<Rightarrow>
        if i < length pool then
          (case pool ! i of
             [] \<Rightarrow> cfg
           | act # rest \<Rightarrow> if enabled act reg then (perform act reg, pool[i := rest]) else cfg)
        else cfg)"

definition run_schedule ::
  "nat list \<Rightarrow> 'a SessionRegistry \<times> 'a Action list list \<Rightarrow> 'a SessionRegistry \<times> 'a Action list list" where
  "run_schedule schedule cfg = fold step_task schedule cfg"

section \<open>Notions used in the statements\<close>

text \<open>The amplitude of a frame as an integer (0 where the computation raises).\<close>

definition amp :: "AudioFrame \<Rightarrow> int" where
  "amp f = (case frame_amplitude f of Inl _ \<Rightarrow> 0 | Inr a \<Rightarrow> a)"

text \<open>The complete 16-bit samples in a sequence of bytes; a trailing single byte is no sample.\<close>

fun samples_h :: "byte list \<Rightarrow> int list" where
  "samples_h (lo # hi # rest) = sample_h lo hi # samples_h rest"
| "samples_h [b] = []"
| "samples_h [] = []"

text \<open>The duration the engine takes for a frame whose sample rate is not 0.\<close>

definition dur :: "FloatOps \<Rightarrow> AudioFrame \<Rightarrow> real" where
  "dur ops f = fdiv ops (samples_per_channel f) (sample_rate f)"

text \<open>
  A duration accumulator after the durations of the frames \<open>fs\<close> have been added to it in
  order, starting from \<open>d\<close>, each with one float addition.
\<close>

definition accumulate :: "FloatOps \<Rightarrow> real \<Rightarrow> AudioFrame list \<Rightarrow> real" where
  "accumulate ops d fs = foldl (\<lambda>acc f. fadd ops acc (dur ops f)) d fs"

definition total_samples :: "AudioFrame list \<Rightarrow> int" where
  "total_samples fs = sum_list (map samples_per_channel fs)"

fun frames_of :: "Chunk list \<Rightarrow> AudioFrame list" where
  "frames_of [] = []"
| "frames_of (Frame f # cs) = f # frames_of cs"
| "frames_of (FlushSentinel # cs) = frames_of cs"

text \<open>The frames of the input at or above the threshold, in order.\<close>

definition voiced_frames :: "VADConfig \<Rightarrow> Chunk list \<Rightarrow> AudioFrame list" where
  "voiced_frames cfg cs = filter (\<lambda>f. threshold cfg \<le> amp f) (frames_of cs)"

text \<open>The frames below the threshold at the end of the input, after the last voiced frame.\<close>

definition trailing_silent :: "VADConfig \<Rightarrow> Chunk list \<Rightarrow> AudioFrame list" where
  "trailing_silent cfg cs = rev (takeWhile (\<lambda>f. amp f < threshold cfg) (rev (frames_of cs)))"

text \<open>The EndOfSpeech event that closes the segment open in state \<open>s\<close>.\<close>

definition end_event :: "VADStream \<Rightarrow> VADEvent" where
  "end_event s =
     \<lparr> ev_type = END_OF_SPEECH, ev_samples_index = speech_start_index s,
       ev_speech_duration = speech_duration s, ev_silence_duration = silence_accumulated s,
       ev_frames = speech_frames s \<rparr>"

text \<open>Idle: no segment open, no candidate frames, all accumulators at zero.\<close>

definition idle :: "VADStream \<Rightarrow> bool" where
  "idle s \<longleftrightarrow> \<not> speech_started s \<and> pending_frames s = [] \<and> pending_duration s = 0
     \<and> speech_frames s = [] \<and> speech_duration s = 0 \<and> silence_accumulated s = 0"

definition events_of :: "py_error option \<times> VADStream \<times> VADEvent list \<Rightarrow> VADEvent list" where
  "events_of res = snd (snd res)"

definition state_of :: "py_error option \<times> VADStream \<times> VADEvent list \<Rightarrow> VADStream" where
  "state_of res = fst (snd res)"

text \<open>
  What holds of every state a fresh stream reaches without an exception: the two duration
  accumulators are what the float additions over their buffers give, and the sample
  counter counts all frames seen.
\<close>

definition reached_ok :: "FloatOps \<Rightarrow> Chunk list \<Rightarrow> VADStream \<Rightarrow> bool" where
  "reached_ok ops cs s \<longleftrightarrow>
     pending_duration s = accumulate ops 0 (pending_frames s)
     \<and> speech_duration s = accumulate ops 0 (speech_frames s)
     \<and> samples_index s = total_samples (frames_of cs)"

text \<open>
  What holds of a state reached from an idle stream by input that closes no segment: the
  buffers hold exactly the voiced frames of that input, in the candidate buffer until the
  start of speech and in the segment after it, and while the segment is open the silence
  accumulator is what the float additions over the trailing silent frames give.
\<close>

definition segment_ok :: "FloatOps \<Rightarrow> VADConfig \<Rightarrow> Chunk list \<Rightarrow> VADStream \<Rightarrow> bool" where
  "segment_ok ops cfg cs s \<longleftrightarrow>
     pending_frames s @ speech_frames s = voiced_frames cfg cs
     \<and> (if speech_started s
         then pending_frames s = [] \<and> pending_duration s = 0
           \<and> speech_duration s = accumulate ops 0 (speech_frames s)
           \<and> silence_accumulated s = accumulate ops 0 (trailing_silent cfg cs)
         else speech_frames s = [] \<and> speech_duration s = 0
           \<and> pending_duration s = accumulate ops 0 (pending_frames s))"

text \<open>
  The search order of the transcript extraction in the words of the specification: the
  first match of a list of candidates; the candidate a direct key gives; the elements
  under a list-valued key.
\<close>

definition spec_first_match :: "string option list \<Rightarrow> string option" where
  "spec_first_match rs = (case dropWhile (\<lambda>r. r = None) rs of [] \<Rightarrow> None | r # _ \<Rightarrow> r)"

definition spec_direct_text :: "(string \<times> json) list \<Rightarrow> string \<Rightarrow> string option" where
  "spec_direct_text body key =
     (case map_of body key of
        Some (JStr v) \<Rightarrow> if strip v = [] then None else Some (strip v)
      | _ \<Rightarrow> None)"

definition spec_list_items :: "(string \<times> json) list \<Rightarrow> string \<Rightarrow> json list" where
  "spec_list_items body key = (case map_of body key of Some (JList items) \<Rightarrow> items | _ \<Rightarrow> [])"

subsection \<open>Concrete inputs\<close>

text \<open>Frames of two samples at 8 Hz: a quarter of a second each.\<close>

definition voiced_frame :: AudioFrame where
  "voiced_frame = \<lparr> data = [0x00, 0x40, 0x20, 0x03], sample_rate = 8, num_channels = 1,
                    samples_per_channel = 2 \<rparr>"

definition silent_frame :: AudioFrame where
  "silent_frame = \<lparr> data = [0x05, 0x00, 0xFE, 0xFF], sample_rate = 8, num_channels = 1,
                    samples_per_channel = 2 \<rparr>"

text \<open>A frame without samples, and a frame whose sample rate is 0.\<close>

definition empty_frame :: AudioFrame where
  "empty_frame = \<lparr> data = [], sample_rate = 8, num_channels = 1, samples_per_channel = 0 \<rparr>"

definition zero_rate_frame :: AudioFrame where
  "zero_rate_frame = \<lparr> data = [0x00, 0x00], sample_rate = 0, num_channels = 1,
                       samples_per_channel = 1 \<rparr>"

text \<open>Sample data of one byte and of three bytes.\<close>

definition short_frame :: AudioFrame where
  "short_frame = \<lparr> data = [0x7F], sample_rate = 8, num_channels = 1,
                   samples_per_channel = 2 \<rparr>"

definition odd_frame :: AudioFrame where
  "odd_frame = \<lparr> data = [0x00, 0x40, 0x00], sample_rate = 8, num_channels = 1,
                 samples_per_channel = 1 \<rparr>"

definition vad_config :: VADConfig where
  "vad_config = \<lparr> threshold = 500, min_speech_duration = 1/2, silence_timeout = 3/8 \<rparr>"


text \<open>A stream in which a segment is open, and one that has also heard one silent frame.\<close>

definition speaking_stream :: VADStream where
  "speaking_stream =
     state_of (run_chunks exact_ops vad_config init_stream [Frame voiced_frame, Frame voiced_frame])"

definition trailing_stream :: VADStream where
  "trailing_stream =
     state_of (run_chunks exact_ops vad_config init_stream
                 [Frame voiced_frame, Frame voiced_frame, Frame silent_frame])"

definition tts_options :: DrascomTtsOptions where
  "tts_options = \<lparr> tts_base_url = ''http://speech'', tts_model = ''piper'', tts_voice = ''jenny_dioco'',
                   tts_speed = 1, tts_response_format = ''mp3'', tts_api_key = None, tts_timeout = 30 \<rparr>"

definition stt_options :: DrascomSttOptions where
  "stt_options = \<lparr> stt_base_url = ''http://speech'', stt_model = ''whisper'', stt_language = None,
                   stt_response_format = ''json'', stt_api_key = None, stt_timeout = 30 \<rparr>"

definition blank_response :: HttpResponse where
  "blank_response = \<lparr> status_code = 200, headers = [(''x-request-id'', ''r1'')],
                      json_body = Some (JDict [(''text'', JStr ''  ''), (''segments'', JList [])]),
                      body_text = [], content = [] \<rparr>"

text \<open>The records the registry lists for a room name.\<close>

definition records_for :: "'a SessionRegistry \<Rightarrow> string \<Rightarrow> 'a SessionInfo list" where
  "records_for reg room = filter (\<lambda>session. room_name session = room) (list_sessions reg)"

text \<open>
  What every registry reached by complete operations satisfies: one entry per key, each
  record filed under its own room name, and the room lock free.
\<close>

definition registry_ok :: "'a SessionRegistry \<Rightarrow> bool" where
  "registry_ok reg \<longleftrightarrow>
     distinct (map fst (sessions reg))
     \<and> (\<forall>entry \<in> set (sessions reg). room_name (snd entry) = fst entry)
     \<and> \<not> room_lock_locked reg"

text \<open>
  A task is inside its critical section when it has acquired the lock and not released
  it yet: of its remaining steps, a release is still to come and no acquire.
\<close>

definition holding :: "'a Action list \<Rightarrow> bool" where
  "holding rest \<longleftrightarrow> Release \<in> set rest \<and> Acquire \<notin> set rest"

definition writes_sessions :: "'a Action \<Rightarrow> bool" where
  "writes_sessions act =
     (case act of StoreSession room session \<Rightarrow> True | PopSession room \<Rightarrow> True | _ \<Rightarrow> False)"

text \<open>The remaining steps a task of the registry can have.\<close>

definition task_rest :: "'a Action list \<Rightarrow> bool" where
  "task_rest rest \<longleftrightarrow>
     rest = [] \<or> rest = [Release]
     \<or> (\<exists>w. writes_sessions w \<and> (rest = [w, Release] \<or> rest = [Acquire, w, Release]))
     \<or> (\<exists>identity now. rest = [StoreGreeting identity now])"

text \<open>
  Mutual exclusion in a configuration: at most one task is inside its critical section,
  the lock is held exactly when one is, and a task whose next step writes the session
  map is inside its critical section.
\<close>

definition exclusive :: "'a SessionRegistry \<times> 'a Action list list \<Rightarrow> bool" where
  "exclusive cfg \<longleftrightarrow>
     (\<forall>i < length (snd cfg). \<forall>j < length (snd cfg).
        holding (snd cfg ! i) \<and> holding (snd cfg ! j) \<longrightarrow> i = j)
     \<and> (room_lock_locked (fst cfg) \<longleftrightarrow> (\<exists>i < length (snd cfg). holding (snd cfg ! i)))
     \<and> (\<forall>i < length (snd cfg). \<forall>act rest.
          snd cfg ! i = act # rest \<and> writes_sessions act \<longrightarrow> holding (snd cfg ! i))"

subsection \<open>Concrete registries\<close>

text \<open>A registry whose room lock is held by some other task.\<close>

definition locked_registry :: "nat SessionRegistry" where
  "locked_registry = new_registry\<lparr> room_lock_locked := True \<rparr>"

definition room_a_ops :: "nat RegistryOp list" where
  "room_a_ops = [Register 1 ''A'' ''u1'' ''Ann'' None None (Some [(''lang'', 7)]),
                 Register 2 ''B'' ''u2'' ''Bob'' None None None]"

definition registry_ab :: "nat SessionRegistry" where
  "registry_ab =
     \<lparr> sessions =
         [(''A'', \<lparr> room_name = ''A'', user_identity = ''u1'', user_name = ''Ann'', created_at = 1,
                   agent_session = None, agent = None, metadata = [(''lang'', 7)] \<rparr>),
          (''B'', \<lparr> room_name = ''B'', user_identity = ''u2'', user_name = ''Bob'', created_at = 2,
                   agent_session = None, agent = None, metadata = [] \<rparr>)],
       room_lock_locked = False, greeting_times = [] \<rparr>"

definition three_tasks :: "nat Action list list" where
  "three_tasks = map task_of
     [Register 3 ''A'' ''u3'' ''Cy'' None None None, Unregister ''B'', RecordGreeting 5 ''u1'']"

section \<open>The voice-activity engine: basic facts\<close>

lemma cast_h_even: "even (length bs) \<Longrightarrow> cast_h bs = Inr (samples_h bs)"
  by (induction bs rule: cast_h.induct) auto

lemma samples_h_butlast: "odd (length bs) \<Longrightarrow> samples_h (butlast bs) = samples_h bs"
  by (induction bs rule: samples_h.induct) auto

lemma samples_h_nonempty: "2 \<le> length bs \<Longrightarrow> samples_h bs \<noteq> []"
  by (cases bs rule: samples_h.cases) auto

lemma fold_max_abs: "fold (\<lambda>y m. max m \<bar>y\<bar>) xs m0 = Max (insert m0 (abs ` set xs))"
proof (induction xs arbitrary: m0)
  case Nil
  then show ?case by simp
next
  case (Cons x xs)
  have "Max (insert (max m0 \<bar>x\<bar>) (abs ` set xs)) = Max (insert m0 (insert \<bar>x\<bar> (abs ` set xs)))"
  proof (cases "set xs = {}")
    case True
    then show ?thesis by (simp add: max.commute)
  next
    case False
    then show ?thesis by (simp add: max.assoc)
  qed
  with Cons show ?case by simp
qed

lemma max_abs_peak: "xs \<noteq> [] \<Longrightarrow> max_abs xs = Inr (Max (abs ` set xs))"
  by (cases xs) (simp_all add: fold_max_abs)

text \<open>
  The amplitude never raises: it is 0 for fewer than two bytes and otherwise the peak of
  the complete samples.
\<close>

lemma frame_amplitude_peak:
  "frame_amplitude f =
     Inr (if length (data f) < 2 then 0 else Max (abs ` set (samples_h (data f))))"
proof (cases "length (data f) < 2")
  case True
  then show ?thesis by (auto simp: frame_amplitude_def)
next
  case False
  then have ge: "2 \<le> length (data f)" by simp
  then have ne: "data f \<noteq> []" by auto
  show ?thesis
  proof (cases "even (length (data f))")
    case True
    then have p: "length (data f) mod 2 = 0" by presburger
    from ge ne False True show ?thesis
      by (simp add: frame_amplitude_def Let_def p cast_h_even samples_h_nonempty max_abs_peak)
  next
    case odd: False
    then have "3 \<le> length (data f)" "length (data f) mod 2 = 1"
      "even (length (data f) - 1)" "2 \<le> length (data f) - 1"
      using ge by presburger+
    moreover have "take (length (data f) - 1) (data f) = butlast (data f)"
      by (simp add: butlast_conv_take)
    moreover have "even (length (butlast (data f)))" using calculation by simp
    moreover have "samples_h (butlast (data f)) = samples_h (data f)"
      using odd by (rule samples_h_butlast)
    ultimately show ?thesis
      using False ge ne
      by (simp add: frame_amplitude_def Let_def cast_h_even samples_h_nonempty max_abs_peak)
  qed
qed

lemma frame_amplitude_amp: "frame_amplitude f = Inr (amp f)"
  by (simp add: amp_def frame_amplitude_peak)

lemma amp_short: "length (data f) < 2 \<Longrightarrow> amp f = 0"
  by (simp add: amp_def frame_amplitude_peak)


text \<open>The duration raises exactly at sample rate 0.\<close>

lemma frame_duration_ok: "sample_rate f \<noteq> 0 \<Longrightarrow> frame_duration ops f = Inr (dur ops f)"
  by (simp add: frame_duration_def duration_def dur_def)

lemma frame_duration_zero_rate: "sample_rate f = 0 \<Longrightarrow> frame_duration ops f = Inl ZeroDivisionError"
  by (simp add: frame_duration_def duration_def)

lemma process_frame_zero_rate:
  "sample_rate f = 0 \<Longrightarrow> process_frame ops cfg s f = Inl ZeroDivisionError"
  by (simp add: process_frame_def frame_amplitude_amp frame_duration_zero_rate)

text \<open>The six paths through \<open>process_frame\<close> for a frame that has a duration.\<close>

lemma pf_voiced_speaking:
  "sample_rate f \<noteq> 0 \<Longrightarrow> threshold cfg \<le> amp f \<Longrightarrow> speech_started s \<Longrightarrow>
   process_frame ops cfg s f =
     Inr (s\<lparr> silence_accumulated := 0,
             speech_frames := speech_frames s @ [f],
             speech_duration := fadd ops (speech_duration s) (dur ops f),
             samples_index := samples_index s + samples_per_channel f \<rparr>, [])"
  by (simp add: process_frame_def frame_amplitude_amp frame_duration_ok Let_def)

lemma pf_voiced_pending:
  "sample_rate f \<noteq> 0 \<Longrightarrow> threshold cfg \<le> amp f \<Longrightarrow> \<not> speech_started s \<Longrightarrow>
   fadd ops (pending_duration s) (dur ops f) < min_speech_duration cfg \<Longrightarrow>
   process_frame ops cfg s f =
     Inr (s\<lparr> silence_accumulated := 0,
             pending_frames := pending_frames s @ [f],
             pending_duration := fadd ops (pending_duration s) (dur ops f),
             samples_index := samples_index s + samples_per_channel f \<rparr>, [])"
  by (simp add: process_frame_def frame_amplitude_amp frame_duration_ok Let_def)

lemma pf_voiced_start:
  "sample_rate f \<noteq> 0 \<Longrightarrow> threshold cfg \<le> amp f \<Longrightarrow> \<not> speech_started s \<Longrightarrow>
   min_speech_duration cfg \<le> fadd ops (pending_duration s) (dur ops f) \<Longrightarrow>
   process_frame ops cfg s f =
     Inr (s\<lparr> silence_accumulated := 0,
             speech_started := True,
             speech_start_index := samples_index s,
             speech_frames := pending_frames s @ [f],
             speech_duration := fadd ops (pending_duration s) (dur ops f),
             pending_frames := [],
             pending_duration := 0,
             samples_index := samples_index s + samples_per_channel f \<rparr>,
          [\<lparr> ev_type = START_OF_SPEECH, ev_samples_index = samples_index s,
             ev_speech_duration = 0, ev_silence_duration = 0,
             ev_frames = pending_frames s @ [f] \<rparr>])"
  by (simp add: process_frame_def frame_amplitude_amp frame_duration_ok Let_def start_speech_def)

lemma pf_silent_idle:
  "sample_rate f \<noteq> 0 \<Longrightarrow> amp f < threshold cfg \<Longrightarrow> \<not> speech_started s \<Longrightarrow>
   process_frame ops cfg s f =
     Inr (s\<lparr> samples_index := samples_index s + samples_per_channel f \<rparr>, [])"
  by (simp add: process_frame_def frame_amplitude_amp frame_duration_ok Let_def)

lemma pf_silent_speaking:
  "sample_rate f \<noteq> 0 \<Longrightarrow> amp f < threshold cfg \<Longrightarrow> speech_started s \<Longrightarrow>
   fadd ops (silence_accumulated s) (dur ops f) < silence_timeout cfg \<Longrightarrow>
   process_frame ops cfg s f =
     Inr (s\<lparr> silence_accumulated := fadd ops (silence_accumulated s) (dur ops f),
             samples_index := samples_index s + samples_per_channel f \<rparr>, [])"
  by (simp add: process_frame_def frame_amplitude_amp frame_duration_ok Let_def)

lemma pf_silent_end:
  "sample_rate f \<noteq> 0 \<Longrightarrow> amp f < threshold cfg \<Longrightarrow> speech_started s \<Longrightarrow>
   silence_timeout cfg \<le> fadd ops (silence_accumulated s) (dur ops f) \<Longrightarrow>
   process_frame ops cfg s f =
     Inr (s\<lparr> silence_accumulated := 0,
             samples_index := samples_index s + samples_per_channel f,
             speech_started := False,
             speech_frames := [],
             speech_duration := 0,
             pending_frames := [],
             pending_duration := 0 \<rparr>,
          [end_event (s\<lparr> silence_accumulated := fadd ops (silence_accumulated s) (dur ops f) \<rparr>)])"
  by (simp add: process_frame_def frame_amplitude_amp frame_duration_ok Let_def emit_end_def
      end_event_def)


text \<open>The loop over two pieces of input.\<close>

lemma run_chunks_append:
  "run_chunks ops cfg s (xs @ ys) =
     (case run_chunks ops cfg s xs of
        (None, s1, e1) \<Rightarrow>
          (case run_chunks ops cfg s1 ys of (r, s2, e2) \<Rightarrow> (r, s2, e1 @ e2))
      | (Some e, s1, e1) \<Rightarrow> (Some e, s1, e1))"
proof (induction xs arbitrary: s)
  case Nil
  then show ?case by (simp split: prod.splits)
next
  case (Cons c cs)
  show ?case
  proof (cases "handle_chunk ops cfg s c")
    case (Inl e)
    then show ?thesis by simp
  next
    case (Inr p)
    obtain sa ea where p: "p = (sa, ea)" by (cases p)
    show ?thesis
      using Inr p Cons.IH [of sa]
      by (simp split: prod.splits option.splits)
  qed
qed

lemma run_chunks_append_ok:
  "run_chunks ops cfg s xs = (None, s1, e1) \<Longrightarrow> run_chunks ops cfg s1 ys = (r2, s2, e2) \<Longrightarrow>
   run_chunks ops cfg s (xs @ ys) = (r2, s2, e1 @ e2)"
  by (simp add: run_chunks_append)

lemma run_chunks_snoc:
  "run_chunks ops cfg s cs = (None, s1, e1) \<Longrightarrow> handle_chunk ops cfg s1 c = Inr (s2, e2) \<Longrightarrow>
   run_chunks ops cfg s (cs @ [c]) = (None, s2, e1 @ e2)"
  by (simp add: run_chunks_append)

lemma run_chunks_snoc_elim:
  assumes "run_chunks ops cfg s (cs @ [c]) = (None, s2, evs)"
  obtains s1 e1 e2 where "run_chunks ops cfg s cs = (None, s1, e1)"
    and "handle_chunk ops cfg s1 c = Inr (s2, e2)" and "evs = e1 @ e2"
proof -
  obtain r1 s1 e1 where r1: "run_chunks ops cfg s cs = (r1, s1, e1)"
    by (metis prod_cases3)
  with assms have n: "r1 = None"
    by (cases r1) (simp_all add: run_chunks_append)
  from assms r1 n obtain e2 where "handle_chunk ops cfg s1 c = Inr (s2, e2)" "evs = e1 @ e2"
    by (cases "handle_chunk ops cfg s1 c") (auto simp: run_chunks_append)
  with r1 n show thesis using that by blast
qed

subsection \<open>The concrete inputs evaluated\<close>

lemma fadd_exact [simp]: "fadd exact_ops x y = x + y"
  by (simp add: exact_ops_def)

lemma amp_voiced_frame: "amp voiced_frame = 16384"
  by (simp add: amp_def frame_amplitude_def voiced_frame_def sample_h_def)

lemma amp_silent_frame: "amp silent_frame = 5"
  by (simp add: amp_def frame_amplitude_def silent_frame_def sample_h_def)

lemma amp_odd_frame: "amp odd_frame = 16384"
  by (simp add: amp_def frame_amplitude_def odd_frame_def sample_h_def)

lemma amp_short_frame: "amp short_frame = 0"
  by (simp add: amp_short short_frame_def)


lemma dur_voiced_frame: "dur exact_ops voiced_frame = 1/4"
  by (simp add: dur_def exact_ops_def voiced_frame_def)

lemma dur_silent_frame: "dur exact_ops silent_frame = 1/4"
  by (simp add: dur_def exact_ops_def silent_frame_def)



lemma rates:
  "sample_rate voiced_frame \<noteq> 0" "sample_rate silent_frame \<noteq> 0"
  "sample_rate short_frame \<noteq> 0" "sample_rate empty_frame \<noteq> 0" "sample_rate odd_frame \<noteq> 0"
  "sample_rate zero_rate_frame = 0"
  by (simp_all add: voiced_frame_def silent_frame_def short_frame_def empty_frame_def
      odd_frame_def zero_rate_frame_def)

lemma spc:
  "samples_per_channel voiced_frame = 2" "samples_per_channel silent_frame = 2"
  "samples_per_channel short_frame = 2" "samples_per_channel empty_frame = 0"
  by (simp_all add: voiced_frame_def silent_frame_def short_frame_def empty_frame_def)

lemma first_voiced:
  "process_frame exact_ops vad_config init_stream voiced_frame =
      Inr (\<lparr> speech_frames = [], pending_frames = [voiced_frame], pending_duration = 1/4,
        speech_duration = 0, silence_accumulated = 0, speech_started = False,
        speech_start_index = 0, samples_index = 2 \<rparr>, [])"
  by (subst pf_voiced_pending)
     (simp_all add: amp_voiced_frame dur_voiced_frame spc rates vad_config_def init_stream_def)

lemma second_voiced:
  "process_frame exact_ops vad_config
      \<lparr> speech_frames = [], pending_frames = [voiced_frame], pending_duration = 1/4,
        speech_duration = 0, silence_accumulated = 0, speech_started = False,
        speech_start_index = 0, samples_index = 2 \<rparr> voiced_frame =
      Inr (\<lparr> speech_frames = [voiced_frame, voiced_frame], pending_frames = [], pending_duration = 0,
        speech_duration = 1/2, silence_accumulated = 0, speech_started = True,
        speech_start_index = 2, samples_index = 4 \<rparr>,
        [\<lparr> ev_type = START_OF_SPEECH, ev_samples_index = 2, ev_speech_duration = 0,
         ev_silence_duration = 0, ev_frames = [voiced_frame, voiced_frame] \<rparr>])"
  by (subst pf_voiced_start)
     (simp_all add: amp_voiced_frame dur_voiced_frame spc rates vad_config_def)

lemma run_two_voiced:
  "run_chunks exact_ops vad_config init_stream [Frame voiced_frame, Frame voiced_frame] =
     (None,
      \<lparr> speech_frames = [voiced_frame, voiced_frame], pending_frames = [], pending_duration = 0,
        speech_duration = 1/2, silence_accumulated = 0, speech_started = True,
        speech_start_index = 2, samples_index = 4 \<rparr>,
      [\<lparr> ev_type = START_OF_SPEECH, ev_samples_index = 2, ev_speech_duration = 0,
         ev_silence_duration = 0, ev_frames = [voiced_frame, voiced_frame] \<rparr>])"
  by (simp add: handle_chunk_def first_voiced second_voiced)

lemma speaking_stream_eq:
  "speaking_stream =
      \<lparr> speech_frames = [voiced_frame, voiced_frame], pending_frames = [], pending_duration = 0,
        speech_duration = 1/2, silence_accumulated = 0, speech_started = True,
        speech_start_index = 2, samples_index = 4 \<rparr>"
  by (simp add: speaking_stream_def state_of_def run_two_voiced del: run_chunks.simps)

lemma run_to_speaking:
  "run_chunks exact_ops vad_config init_stream [Frame voiced_frame, Frame voiced_frame] =
     (None, speaking_stream,
      [\<lparr> ev_type = START_OF_SPEECH, ev_samples_index = 2, ev_speech_duration = 0,
         ev_silence_duration = 0, ev_frames = [voiced_frame, voiced_frame] \<rparr>])"
  by (simp add: run_two_voiced speaking_stream_eq del: run_chunks.simps)

lemma speaking_then_silent:
  "process_frame exact_ops vad_config speaking_stream silent_frame =
     Inr (speaking_stream\<lparr> silence_accumulated := 1/4, samples_index := 6 \<rparr>, [])"
  by (subst pf_silent_speaking)
     (simp_all add: amp_silent_frame dur_silent_frame vad_config_def speaking_stream_eq rates spc)

lemma run_voiced_silent:
  "run_chunks exact_ops vad_config init_stream
      [Frame voiced_frame, Frame voiced_frame, Frame silent_frame] =
     (None, speaking_stream\<lparr> silence_accumulated := 1/4, samples_index := 6 \<rparr>,
      [\<lparr> ev_type = START_OF_SPEECH, ev_samples_index = 2, ev_speech_duration = 0,
         ev_silence_duration = 0, ev_frames = [voiced_frame, voiced_frame] \<rparr>])"
proof -
  have "run_chunks exact_ops vad_config speaking_stream [Frame silent_frame] =
      (None, speaking_stream\<lparr> silence_accumulated := 1/4, samples_index := 6 \<rparr>, [])"
    by (simp add: handle_chunk_def speaking_then_silent)
  from run_chunks_append_ok [OF run_to_speaking this]
  show ?thesis by simp
qed

lemma trailing_stream_eq:
  "trailing_stream = speaking_stream\<lparr> silence_accumulated := 1/4, samples_index := 6 \<rparr>"
  by (simp add: trailing_stream_def state_of_def run_voiced_silent del: run_chunks.simps)

section \<open>Malformed frames (C3)\<close>




section \<open>Flush and stream close (C4)\<close>

text \<open>
  C4: a flush received while Speaking sends exactly one EndOfSpeech, carrying the speech
  and silence durations accumulated so far, whatever the trailing silence is, and leaves
  the stream Idle; a flush with no segment open sends nothing and changes nothing. The
  close of the stream (the \<open>finally\<close> clause of the main task) does the same.
\<close>

theorem flush_closes_open_segment:
  "(speech_started s \<longrightarrow>
      handle_chunk ops cfg s FlushSentinel = Inr (fst (flush s), [end_event s])
      \<and> idle (fst (flush s)))
   \<and> (\<not> speech_started s \<longrightarrow> handle_chunk ops cfg s FlushSentinel = Inr (s, []))
   \<and> main_task ops cfg cs =
       (fst (run_chunks ops cfg init_stream cs),
        fst (flush (state_of (run_chunks ops cfg init_stream cs))),
        events_of (run_chunks ops cfg init_stream cs) @
          (if speech_started (state_of (run_chunks ops cfg init_stream cs))
           then [end_event (state_of (run_chunks ops cfg init_stream cs))] else []))"
  by (cases "run_chunks ops cfg init_stream cs")
     (simp add: handle_chunk_def flush_def emit_end_def end_event_def idle_def main_task_def
        state_of_def events_of_def)

theorem flush_closes_open_segment_witness:
  "speech_started trailing_stream
   \<and> silence_accumulated trailing_stream < silence_timeout vad_config
   \<and> handle_chunk exact_ops vad_config trailing_stream FlushSentinel
       = Inr (fst (flush trailing_stream),
              [\<lparr> ev_type = END_OF_SPEECH, ev_samples_index = 2, ev_speech_duration = 1/2,
                 ev_silence_duration = 1/4, ev_frames = [voiced_frame, voiced_frame] \<rparr>])
   \<and> idle (fst (flush trailing_stream))
   \<and> \<not> speech_started init_stream
   \<and> handle_chunk exact_ops vad_config init_stream FlushSentinel = Inr (init_stream, [])"
proof -
  have st: "speech_started trailing_stream" "\<not> speech_started init_stream"
    "silence_accumulated trailing_stream < silence_timeout vad_config"
    by (simp_all add: trailing_stream_eq speaking_stream_eq init_stream_def vad_config_def)
  have ev: "end_event trailing_stream =
     \<lparr> ev_type = END_OF_SPEECH, ev_samples_index = 2, ev_speech_duration = 1/2,
       ev_silence_duration = 1/4, ev_frames = [voiced_frame, voiced_frame] \<rparr>"
    by (simp add: end_event_def trailing_stream_eq speaking_stream_eq)
  show ?thesis
    using flush_closes_open_segment [of trailing_stream exact_ops vad_config "[]"]
      flush_closes_open_segment [of init_stream exact_ops vad_config "[]"] st ev
    by simp
qed

section \<open>Runs of the engine\<close>

lemma frames_of_append: "frames_of (xs @ ys) = frames_of xs @ frames_of ys"
  by (induction xs rule: frames_of.induct) auto

lemma frames_of_map_Frame: "frames_of (map Frame fs) = fs"
  by (induction fs) auto

lemma accumulate_Nil: "accumulate ops d [] = d"
  by (simp add: accumulate_def)


lemma accumulate_snoc: "accumulate ops d (fs @ [f]) = fadd ops (accumulate ops d fs) (dur ops f)"
  by (simp add: accumulate_def)

lemma total_samples_snoc: "total_samples (fs @ [f]) = total_samples fs + samples_per_channel f"
  by (simp add: total_samples_def)


lemma trailing_silent_frame:
  "trailing_silent cfg (cs @ [Frame f]) =
     (if amp f < threshold cfg then trailing_silent cfg cs @ [f] else [])"
  by (simp add: trailing_silent_def frames_of_append)

lemma trailing_silent_flush: "trailing_silent cfg (cs @ [FlushSentinel]) = trailing_silent cfg cs"
  by (simp add: trailing_silent_def frames_of_append)

lemma voiced_frames_frame:
  "voiced_frames cfg (cs @ [Frame f]) =
     (if threshold cfg \<le> amp f then voiced_frames cfg cs @ [f] else voiced_frames cfg cs)"
  by (simp add: voiced_frames_def frames_of_append)

lemma voiced_frames_flush: "voiced_frames cfg (cs @ [FlushSentinel]) = voiced_frames cfg cs"
  by (simp add: voiced_frames_def frames_of_append)

lemma process_frame_rate:
  "process_frame ops cfg s f = Inr r \<Longrightarrow> sample_rate f \<noteq> 0"
  using process_frame_zero_rate [of f ops cfg s] by auto

text \<open>What one call of \<open>process_frame\<close> that returns can have done, as a case distinction.\<close>

lemma process_frame_cases:
  assumes "process_frame ops cfg s f = Inr (s', evs)"
  obtains
    (voiced_speaking) "threshold cfg \<le> amp f" "speech_started s" "evs = []"
      "s' = s\<lparr> silence_accumulated := 0,
               speech_frames := speech_frames s @ [f],
               speech_duration := fadd ops (speech_duration s) (dur ops f),
               samples_index := samples_index s + samples_per_channel f \<rparr>"
  | (voiced_pending) "threshold cfg \<le> amp f" "\<not> speech_started s"
      "fadd ops (pending_duration s) (dur ops f) < min_speech_duration cfg" "evs = []"
      "s' = s\<lparr> silence_accumulated := 0,
               pending_frames := pending_frames s @ [f],
               pending_duration := fadd ops (pending_duration s) (dur ops f),
               samples_index := samples_index s + samples_per_channel f \<rparr>"
  | (voiced_start) "threshold cfg \<le> amp f" "\<not> speech_started s"
      "min_speech_duration cfg \<le> fadd ops (pending_duration s) (dur ops f)"
      "evs = [\<lparr> ev_type = START_OF_SPEECH, ev_samples_index = samples_index s,
               ev_speech_duration = 0, ev_silence_duration = 0,
               ev_frames = pending_frames s @ [f] \<rparr>]"
      "s' = s\<lparr> silence_accumulated := 0,
               speech_started := True,
               speech_start_index := samples_index s,
               speech_frames := pending_frames s @ [f],
               speech_duration := fadd ops (pending_duration s) (dur ops f),
               pending_frames := [],
               pending_duration := 0,
               samples_index := samples_index s + samples_per_channel f \<rparr>"
  | (silent_idle) "amp f < threshold cfg" "\<not> speech_started s" "evs = []"
      "s' = s\<lparr> samples_index := samples_index s + samples_per_channel f \<rparr>"
  | (silent_speaking) "amp f < threshold cfg" "speech_started s"
      "fadd ops (silence_accumulated s) (dur ops f) < silence_timeout cfg" "evs = []"
      "s' = s\<lparr> silence_accumulated := fadd ops (silence_accumulated s) (dur ops f),
               samples_index := samples_index s + samples_per_channel f \<rparr>"
  | (silent_end) "amp f < threshold cfg" "speech_started s"
      "silence_timeout cfg \<le> fadd ops (silence_accumulated s) (dur ops f)"
      "evs = [end_event (s\<lparr> silence_accumulated := fadd ops (silence_accumulated s) (dur ops f) \<rparr>)]"
      "s' = s\<lparr> silence_accumulated := 0,
               samples_index := samples_index s + samples_per_channel f,
               speech_started := False,
               speech_frames := [],
               speech_duration := 0,
               pending_frames := [],
               pending_duration := 0 \<rparr>"
proof -
  have rt: "sample_rate f \<noteq> 0" using assms by (rule process_frame_rate)
  show thesis
  proof (cases "threshold cfg \<le> amp f")
    case True
    show ?thesis
    proof (cases "speech_started s")
      case sp: True
      from assms pf_voiced_speaking [OF rt True sp, of ops] show ?thesis
        by (intro voiced_speaking [OF True sp]) simp_all
    next
      case sp: False
      show ?thesis
      proof (cases "min_speech_duration cfg \<le> fadd ops (pending_duration s) (dur ops f)")
        case rd: True
        from assms pf_voiced_start [OF rt \<open>threshold cfg \<le> amp f\<close> sp rd] show ?thesis
          by (intro voiced_start [OF \<open>threshold cfg \<le> amp f\<close> sp rd]) simp_all
      next
        case False
        then have lt: "fadd ops (pending_duration s) (dur ops f) < min_speech_duration cfg" by simp
        from assms pf_voiced_pending [OF rt True sp lt] show ?thesis
          by (intro voiced_pending [OF True sp lt]) simp_all
      qed
    qed
  next
    case False
    then have lo: "amp f < threshold cfg" by simp
    show ?thesis
    proof (cases "speech_started s")
      case sp: False
      from assms pf_silent_idle [OF rt lo sp, of ops] show ?thesis
        by (intro silent_idle [OF lo sp]) simp_all
    next
      case sp: True
      show ?thesis
      proof (cases "silence_timeout cfg \<le> fadd ops (silence_accumulated s) (dur ops f)")
        case rd: True
        from assms pf_silent_end [OF rt lo sp rd] show ?thesis
          by (intro silent_end [OF lo sp rd]) simp_all
      next
        case False
        then have lt: "fadd ops (silence_accumulated s) (dur ops f) < silence_timeout cfg" by simp
        from assms pf_silent_speaking [OF rt lo sp lt] show ?thesis
          by (intro silent_speaking [OF lo sp lt]) simp_all
      qed
    qed
  qed
qed

subsection \<open>States a fresh stream reaches\<close>

lemma reached_ok_init: "reached_ok ops [] init_stream"
  by (simp add: reached_ok_def init_stream_def accumulate_def total_samples_def)

lemma reached_ok_frame:
  assumes "reached_ok ops cs s" "process_frame ops cfg s f = Inr (s', evs)"
  shows "reached_ok ops (cs @ [Frame f]) s'"
  using assms(2)
proof (cases rule: process_frame_cases)
  case voiced_speaking
  with assms(1) show ?thesis
    by (simp add: reached_ok_def accumulate_snoc total_samples_snoc frames_of_append)
next
  case voiced_pending
  with assms(1) show ?thesis
    by (simp add: reached_ok_def accumulate_snoc total_samples_snoc frames_of_append)
next
  case voiced_start
  with assms(1) show ?thesis
    by (simp add: reached_ok_def accumulate_snoc accumulate_Nil total_samples_snoc frames_of_append)
next
  case silent_idle
  with assms(1) show ?thesis
    by (simp add: reached_ok_def total_samples_snoc frames_of_append)
next
  case silent_speaking
  with assms(1) show ?thesis
    by (simp add: reached_ok_def total_samples_snoc frames_of_append)
next
  case silent_end
  with assms(1) show ?thesis
    by (simp add: reached_ok_def total_samples_snoc frames_of_append accumulate_Nil)
qed

lemma reached_ok_flush:
  assumes "reached_ok ops cs s"
  shows "reached_ok ops (cs @ [FlushSentinel]) (fst (flush s))"
  using assms
  by (auto simp: reached_ok_def flush_def emit_end_def frames_of_append accumulate_Nil)

lemma run_chunks_reached:
  "run_chunks ops cfg init_stream cs = (None, s, evs) \<Longrightarrow> reached_ok ops cs s"
proof (induction cs arbitrary: s evs rule: rev_induct)
  case Nil
  then show ?case by (simp add: reached_ok_init)
next
  case (snoc c cs)
  from snoc.prems obtain s1 e1 e2 where r1: "run_chunks ops cfg init_stream cs = (None, s1, e1)"
    and h: "handle_chunk ops cfg s1 c = Inr (s, e2)"
    by (rule run_chunks_snoc_elim)
  have ok1: "reached_ok ops cs s1" using snoc.IH r1 by blast
  show ?case
  proof (cases c)
    case (Frame f)
    with h have "process_frame ops cfg s1 f = Inr (s, e2)" by (simp add: handle_chunk_def)
    from reached_ok_frame [OF ok1 this] show ?thesis using Frame by simp
  next
    case FlushSentinel
    with h have "s = fst (flush s1)" by (simp add: handle_chunk_def)
    with reached_ok_flush [OF ok1] show ?thesis using FlushSentinel by simp
  qed
qed

subsection \<open>One segment\<close>

lemma segment_ok_idle: "idle s \<Longrightarrow> segment_ok ops cfg [] s"
  by (simp add: segment_ok_def idle_def voiced_frames_def accumulate_Nil)

lemma segment_ok_frame:
  assumes "segment_ok ops cfg cs s" "process_frame ops cfg s f = Inr (s', evs)"
    and "END_OF_SPEECH \<notin> ev_type ` set evs"
  shows "segment_ok ops cfg (cs @ [Frame f]) s'
     \<and> map ev_type evs = (if speech_started s' \<and> \<not> speech_started s then [START_OF_SPEECH] else [])
     \<and> (speech_started s \<longrightarrow> speech_started s')"
  using assms(2)
proof (cases rule: process_frame_cases)
  case voiced_speaking
  with assms(1) show ?thesis
    by (auto simp: segment_ok_def accumulate_snoc accumulate_Nil voiced_frames_frame
        trailing_silent_frame)
next
  case voiced_pending
  with assms(1) show ?thesis
    by (auto simp: segment_ok_def accumulate_snoc accumulate_Nil voiced_frames_frame
        trailing_silent_frame)
next
  case voiced_start
  with assms(1) show ?thesis
    by (auto simp: segment_ok_def accumulate_snoc accumulate_Nil voiced_frames_frame
        trailing_silent_frame)
next
  case silent_idle
  with assms(1) show ?thesis
    by (auto simp: segment_ok_def voiced_frames_frame)
next
  case silent_speaking
  with assms(1) show ?thesis
    by (auto simp: segment_ok_def accumulate_snoc voiced_frames_frame trailing_silent_frame)
next
  case silent_end
  with assms(3) show ?thesis by (simp add: end_event_def)
qed

lemma segment_ok_flush:
  assumes "segment_ok ops cfg cs s" "flush s = (s', evs)"
    and "END_OF_SPEECH \<notin> ev_type ` set evs"
  shows "segment_ok ops cfg (cs @ [FlushSentinel]) s' \<and> evs = [] \<and> s' = s"
proof (cases "speech_started s")
  case True
  with assms(2,3) show ?thesis by (auto simp: flush_def emit_end_def)
next
  case False
  with assms(1,2) show ?thesis
    by (auto simp: flush_def segment_ok_def voiced_frames_flush)
qed

text \<open>
  A run from an idle stream that closes no segment: the buffers hold the voiced frames
  of the input, and the events sent are one StartOfSpeech if a segment is open now and
  none otherwise.
\<close>

lemma run_chunks_segment:
  assumes "idle s0"
  shows "run_chunks ops cfg s0 cs = (None, s, evs) \<Longrightarrow> END_OF_SPEECH \<notin> ev_type ` set evs \<Longrightarrow>
     segment_ok ops cfg cs s
     \<and> map ev_type evs = (if speech_started s then [START_OF_SPEECH] else [])"
proof (induction cs arbitrary: s evs rule: rev_induct)
  case Nil
  with assms show ?case by (simp add: segment_ok_idle) (simp add: idle_def)
next
  case (snoc c cs)
  from snoc.prems(1) obtain s1 e1 e2 where r1: "run_chunks ops cfg s0 cs = (None, s1, e1)"
    and h: "handle_chunk ops cfg s1 c = Inr (s, e2)" and evs: "evs = e1 @ e2"
    by (rule run_chunks_snoc_elim)
  from snoc.prems(2) evs have n1: "END_OF_SPEECH \<notin> ev_type ` set e1"
    and n2: "END_OF_SPEECH \<notin> ev_type ` set e2" by auto
  from snoc.IH [OF r1 n1] have ok1: "segment_ok ops cfg cs s1"
    and ev1: "map ev_type e1 = (if speech_started s1 then [START_OF_SPEECH] else [])"
    by simp_all
  show ?case
  proof (cases c)
    case (Frame f)
    with h have pf: "process_frame ops cfg s1 f = Inr (s, e2)" by (simp add: handle_chunk_def)
    from segment_ok_frame [OF ok1 pf n2] ev1 evs Frame show ?thesis
      by (cases "speech_started s1") auto
  next
    case FlushSentinel
    with h have "flush s1 = (s, e2)" by (simp add: handle_chunk_def)
    from segment_ok_flush [OF ok1 this n2] ev1 evs FlushSentinel show ?thesis
      by auto
  qed
qed

subsection \<open>StartOfSpeech events\<close>

lemma process_frame_start_events:
  "process_frame ops cfg s f = Inr (s', evs) \<Longrightarrow> e \<in> set evs \<Longrightarrow> ev_type e = START_OF_SPEECH \<Longrightarrow>
   ev_speech_duration e = 0 \<and> ev_silence_duration e = 0"
  by (erule process_frame_cases) (auto simp: end_event_def)

lemma run_chunks_start_events:
  "run_chunks ops cfg s cs = (r, s', evs) \<Longrightarrow> e \<in> set evs \<Longrightarrow> ev_type e = START_OF_SPEECH \<Longrightarrow>
   ev_speech_duration e = 0 \<and> ev_silence_duration e = 0"
proof (induction cs arbitrary: s evs r s')
  case Nil
  then show ?case by simp
next
  case (Cons c cs)
  show ?case
  proof (cases "handle_chunk ops cfg s c")
    case (Inl err)
    with Cons.prems(1,2) show ?thesis by simp
  next
    case (Inr p)
    obtain s1 e1 where p: "p = (s1, e1)" by (cases p)
    with Inr have h: "handle_chunk ops cfg s c = Inr (s1, e1)" by simp
    obtain r2 s2 e2 where r2: "run_chunks ops cfg s1 cs = (r2, s2, e2)"
      by (metis prod_cases3)
    from Cons.prems(1) h r2 have evs: "evs = e1 @ e2" by simp
    from Cons.prems(2) evs consider "e \<in> set e1" | "e \<in> set e2" by auto
    then show ?thesis
    proof cases
      case 1
      show ?thesis
      proof (cases c)
        case (Frame f)
        with h have "process_frame ops cfg s f = Inr (s1, e1)" by (simp add: handle_chunk_def)
        from process_frame_start_events [OF this 1 Cons.prems(3)] show ?thesis .
      next
        case FlushSentinel
        with h 1 Cons.prems(3) show ?thesis
          by (auto simp: handle_chunk_def flush_def emit_end_def split: if_splits)
      qed
    next
      case 2
      from Cons.IH [OF r2 2 Cons.prems(3)] show ?thesis .
    qed
  qed
qed

section \<open>End of speech after trailing silence (C1)\<close>

lemma run_voiced_silent_silent:
  "run_chunks exact_ops vad_config init_stream
     [Frame voiced_frame, Frame voiced_frame, Frame silent_frame, Frame silent_frame] =
     (None,
      speaking_stream\<lparr> silence_accumulated := 0, samples_index := 8, speech_started := False,
        speech_frames := [], speech_duration := 0, pending_frames := [], pending_duration := 0 \<rparr>,
      [\<lparr> ev_type = START_OF_SPEECH, ev_samples_index = 2, ev_speech_duration = 0,
         ev_silence_duration = 0, ev_frames = [voiced_frame, voiced_frame] \<rparr>,
       \<lparr> ev_type = END_OF_SPEECH, ev_samples_index = 2, ev_speech_duration = 1/2,
         ev_silence_duration = 1/2, ev_frames = [voiced_frame, voiced_frame] \<rparr>])"
proof -
  have "process_frame exact_ops vad_config
          (speaking_stream\<lparr> silence_accumulated := 1/4, samples_index := 6 \<rparr>) silent_frame =
        Inr (speaking_stream\<lparr> silence_accumulated := 0, samples_index := 8, speech_started := False,
               speech_frames := [], speech_duration := 0, pending_frames := [], pending_duration := 0 \<rparr>,
             [\<lparr> ev_type = END_OF_SPEECH, ev_samples_index = 2, ev_speech_duration = 1/2,
                ev_silence_duration = 1/2, ev_frames = [voiced_frame, voiced_frame] \<rparr>])"
    by (subst pf_silent_end)
       (simp_all add: amp_silent_frame dur_silent_frame vad_config_def speaking_stream_eq
          end_event_def rates spc)
  then have "run_chunks exact_ops vad_config
          (speaking_stream\<lparr> silence_accumulated := 1/4, samples_index := 6 \<rparr>)
          [Frame silent_frame] =
        (None, speaking_stream\<lparr> silence_accumulated := 0, samples_index := 8, speech_started := False,
               speech_frames := [], speech_duration := 0, pending_frames := [], pending_duration := 0 \<rparr>,
             [\<lparr> ev_type = END_OF_SPEECH, ev_samples_index = 2, ev_speech_duration = 1/2,
                ev_silence_duration = 1/2, ev_frames = [voiced_frame, voiced_frame] \<rparr>])"
    by (simp add: handle_chunk_def)
  from run_chunks_append_ok [OF run_voiced_silent this] show ?thesis by simp
qed

text \<open>A segment of three voiced frames, then one and two silent frames.\<close>

lemma run_three_voiced:
  "run_chunks exact_ops vad_config init_stream
     [Frame voiced_frame, Frame voiced_frame, Frame voiced_frame] =
     (None,
      \<lparr> speech_frames = [voiced_frame, voiced_frame, voiced_frame], pending_frames = [],
        pending_duration = 0, speech_duration = 3/4, silence_accumulated = 0,
        speech_started = True, speech_start_index = 2, samples_index = 6 \<rparr>,
      [\<lparr> ev_type = START_OF_SPEECH, ev_samples_index = 2, ev_speech_duration = 0,
         ev_silence_duration = 0, ev_frames = [voiced_frame, voiced_frame] \<rparr>])"
proof -
  have "process_frame exact_ops vad_config
      \<lparr> speech_frames = [voiced_frame, voiced_frame], pending_frames = [], pending_duration = 0,
        speech_duration = 1/2, silence_accumulated = 0, speech_started = True,
        speech_start_index = 2, samples_index = 4 \<rparr> voiced_frame =
    Inr (\<lparr> speech_frames = [voiced_frame, voiced_frame, voiced_frame], pending_frames = [],
        pending_duration = 0, speech_duration = 3/4, silence_accumulated = 0,
        speech_started = True, speech_start_index = 2, samples_index = 6 \<rparr>, [])"
    by (subst pf_voiced_speaking)
       (simp_all add: amp_voiced_frame dur_voiced_frame vad_config_def rates spc)
  then have h: "handle_chunk exact_ops vad_config
      \<lparr> speech_frames = [voiced_frame, voiced_frame], pending_frames = [], pending_duration = 0,
        speech_duration = 1/2, silence_accumulated = 0, speech_started = True,
        speech_start_index = 2, samples_index = 4 \<rparr> (Frame voiced_frame) =
    Inr (\<lparr> speech_frames = [voiced_frame, voiced_frame, voiced_frame], pending_frames = [],
        pending_duration = 0, speech_duration = 3/4, silence_accumulated = 0,
        speech_started = True, speech_start_index = 2, samples_index = 6 \<rparr>, [])"
    by (simp add: handle_chunk_def)
  from run_chunks_snoc [OF run_two_voiced h] show ?thesis by simp
qed

lemma run_three_voiced_silent:
  "run_chunks exact_ops vad_config init_stream
     [Frame voiced_frame, Frame voiced_frame, Frame voiced_frame, Frame silent_frame] =
     (None,
      \<lparr> speech_frames = [voiced_frame, voiced_frame, voiced_frame], pending_frames = [],
        pending_duration = 0, speech_duration = 3/4, silence_accumulated = 1/4,
        speech_started = True, speech_start_index = 2, samples_index = 8 \<rparr>,
      [\<lparr> ev_type = START_OF_SPEECH, ev_samples_index = 2, ev_speech_duration = 0,
         ev_silence_duration = 0, ev_frames = [voiced_frame, voiced_frame] \<rparr>])"
proof -
  have "process_frame exact_ops vad_config
      \<lparr> speech_frames = [voiced_frame, voiced_frame, voiced_frame], pending_frames = [],
        pending_duration = 0, speech_duration = 3/4, silence_accumulated = 0,
        speech_started = True, speech_start_index = 2, samples_index = 6 \<rparr> silent_frame =
    Inr (\<lparr> speech_frames = [voiced_frame, voiced_frame, voiced_frame], pending_frames = [],
        pending_duration = 0, speech_duration = 3/4, silence_accumulated = 1/4,
        speech_started = True, speech_start_index = 2, samples_index = 8 \<rparr>, [])"
    by (subst pf_silent_speaking)
       (simp_all add: amp_silent_frame dur_silent_frame vad_config_def rates spc)
  then have h: "handle_chunk exact_ops vad_config
      \<lparr> speech_frames = [voiced_frame, voiced_frame, voiced_frame], pending_frames = [],
        pending_duration = 0, speech_duration = 3/4, silence_accumulated = 0,
        speech_started = True, speech_start_index = 2, samples_index = 6 \<rparr> (Frame silent_frame) =
    Inr (\<lparr> speech_frames = [voiced_frame, voiced_frame, voiced_frame], pending_frames = [],
        pending_duration = 0, speech_duration = 3/4, silence_accumulated = 1/4,
        speech_started = True, speech_start_index = 2, samples_index = 8 \<rparr>, [])"
    by (simp add: handle_chunk_def)
  from run_chunks_snoc [OF run_three_voiced h] show ?thesis by simp
qed

lemma segment_lists:
  "voiced_frames vad_config [Frame voiced_frame, Frame voiced_frame, Frame voiced_frame]
     = [voiced_frame, voiced_frame, voiced_frame]"
  "voiced_frames vad_config
     [Frame voiced_frame, Frame voiced_frame, Frame voiced_frame, Frame silent_frame]
     = [voiced_frame, voiced_frame, voiced_frame]"
  "trailing_silent vad_config
     [Frame voiced_frame, Frame voiced_frame, Frame voiced_frame, Frame silent_frame]
     = [silent_frame]"
  "trailing_silent vad_config
     [Frame voiced_frame, Frame voiced_frame, Frame voiced_frame, Frame silent_frame,
      Frame silent_frame]
     = [silent_frame, silent_frame]"
  by (simp_all add: voiced_frames_def trailing_silent_def amp_voiced_frame amp_silent_frame
      vad_config_def)

lemma segment_durations:
  "accumulate exact_ops 0 [voiced_frame, voiced_frame, voiced_frame] = 3/4"
  "accumulate exact_ops 0 [silent_frame] = 1/4"
  "accumulate exact_ops 0 [silent_frame, silent_frame] = 1/2"
  by (simp_all add: accumulate_def dur_voiced_frame dur_silent_frame)

text \<open>
  Against C1 as stated: with a silence timeout of 3/8 s and frames of 1/4 s, the first
  silent frame after the start leaves the trailing silence at 1/4 s (no event), and the
  second one brings it to 1/2 s. The EndOfSpeech sent then carries the accumulated 1/2 s
  as its silence duration, not the timeout 3/8 s.
\<close>

theorem silence_duration_counterexample:
  "map ev_type (events_of (run_chunks exact_ops vad_config init_stream
      [Frame voiced_frame, Frame voiced_frame, Frame silent_frame])) = [START_OF_SPEECH]
   \<and> map ev_type (events_of (run_chunks exact_ops vad_config init_stream
      [Frame voiced_frame, Frame voiced_frame, Frame silent_frame, Frame silent_frame]))
       = [START_OF_SPEECH, END_OF_SPEECH]
   \<and> map ev_silence_duration (events_of (run_chunks exact_ops vad_config init_stream
      [Frame voiced_frame, Frame voiced_frame, Frame silent_frame, Frame silent_frame]))
       = [0, 1/2]
   \<and> silence_timeout vad_config = 3/8"
proof -
  have "silence_timeout vad_config = 3/8"
    by (simp add: vad_config_def)
  then show ?thesis
    by (simp add: events_of_def run_voiced_silent run_voiced_silent_silent
        del: run_chunks.simps)
qed

text \<open>
  C1, amended. Every segment begins in an Idle stream (a fresh stream is Idle, and so is
  the stream after each EndOfSpeech). Take the input processed since then, with no
  exception and no EndOfSpeech, and let a segment be open: exactly one StartOfSpeech has
  been sent, the segment holds exactly the at-or-above-threshold frames of that input,
  in order, its speech duration is what adding their durations one by one to 0.0 gives,
  and the trailing silence is what adding the durations of the sub-threshold frames
  heard since the last voiced frame gives. A further sub-threshold frame with which the
  trailing silence stays under \<open>silence_timeout\<close> sends no event and keeps the segment
  open. The first one with which it reaches \<open>silence_timeout\<close> sends exactly one
  EndOfSpeech and leaves the stream Idle; the event carries the voiced frames of the
  segment, their accumulated duration as speech duration, and as silence duration the
  accumulated trailing silence, which is at least \<open>silence_timeout\<close> (not always equal to
  it). Durations are added with the float addition of the code, of which nothing is
  assumed.
\<close>

theorem end_of_speech_when_timeout_reached:
  assumes "idle s0"
    and "run_chunks ops cfg s0 cs = (None, s, evs)"
    and "END_OF_SPEECH \<notin> ev_type ` set evs"
    and "speech_started s"
    and "sample_rate f \<noteq> 0"
    and "amp f < threshold cfg"
  shows "idle init_stream
    \<and> map ev_type evs = [START_OF_SPEECH]
    \<and> speech_frames s = voiced_frames cfg cs
    \<and> speech_duration s = accumulate ops 0 (voiced_frames cfg cs)
    \<and> silence_accumulated s = accumulate ops 0 (trailing_silent cfg cs)
    \<and> (accumulate ops 0 (trailing_silent cfg (cs @ [Frame f])) < silence_timeout cfg \<longrightarrow>
         (\<exists>s'. run_chunks ops cfg s0 (cs @ [Frame f]) = (None, s', evs)
            \<and> speech_started s'))
    \<and> (silence_timeout cfg \<le> accumulate ops 0 (trailing_silent cfg (cs @ [Frame f])) \<longrightarrow>
         (\<exists>s'. run_chunks ops cfg s0 (cs @ [Frame f]) =
            (None, s',
             evs @ [\<lparr> ev_type = END_OF_SPEECH, ev_samples_index = speech_start_index s,
                      ev_speech_duration = accumulate ops 0 (voiced_frames cfg cs),
                      ev_silence_duration =
                        accumulate ops 0 (trailing_silent cfg (cs @ [Frame f])),
                      ev_frames = voiced_frames cfg cs \<rparr>])
            \<and> idle s'))"
proof -
  from run_chunks_segment [OF assms(1,2,3)] assms(4)
  have ok: "segment_ok ops cfg cs s" and ev: "map ev_type evs = [START_OF_SPEECH]"
    by simp_all
  from ok assms(4) have fr: "speech_frames s = voiced_frames cfg cs"
    and sd: "speech_duration s = accumulate ops 0 (voiced_frames cfg cs)"
    and sil: "silence_accumulated s = accumulate ops 0 (trailing_silent cfg cs)"
    by (auto simp: segment_ok_def)
  have acc: "accumulate ops 0 (trailing_silent cfg (cs @ [Frame f]))
      = fadd ops (silence_accumulated s) (dur ops f)"
    using assms(6) sil by (simp add: trailing_silent_frame accumulate_snoc)
  have i0: "idle init_stream"
    by (simp add: idle_def init_stream_def)
  have below: "accumulate ops 0 (trailing_silent cfg (cs @ [Frame f])) < silence_timeout cfg \<longrightarrow>
         (\<exists>s'. run_chunks ops cfg s0 (cs @ [Frame f]) = (None, s', evs)
            \<and> speech_started s')"
  proof
    assume "accumulate ops 0 (trailing_silent cfg (cs @ [Frame f])) < silence_timeout cfg"
    then have lt: "fadd ops (silence_accumulated s) (dur ops f) < silence_timeout cfg"
      by (simp add: acc)
    let ?s' = "s\<lparr> silence_accumulated := fadd ops (silence_accumulated s) (dur ops f),
                  samples_index := samples_index s + samples_per_channel f \<rparr>"
    from pf_silent_speaking [OF assms(5,6,4) lt]
    have "handle_chunk ops cfg s (Frame f) = Inr (?s', [])"
      by (simp add: handle_chunk_def)
    from run_chunks_snoc [OF assms(2) this]
    have "run_chunks ops cfg s0 (cs @ [Frame f]) = (None, ?s', evs)" by simp
    moreover have "speech_started ?s'" using assms(4) by simp
    ultimately show "\<exists>s'. run_chunks ops cfg s0 (cs @ [Frame f]) = (None, s', evs)
            \<and> speech_started s'"
      by blast
  qed
  have reach: "silence_timeout cfg \<le> accumulate ops 0 (trailing_silent cfg (cs @ [Frame f])) \<longrightarrow>
         (\<exists>s'. run_chunks ops cfg s0 (cs @ [Frame f]) =
            (None, s',
             evs @ [\<lparr> ev_type = END_OF_SPEECH, ev_samples_index = speech_start_index s,
                      ev_speech_duration = accumulate ops 0 (voiced_frames cfg cs),
                      ev_silence_duration =
                        accumulate ops 0 (trailing_silent cfg (cs @ [Frame f])),
                      ev_frames = voiced_frames cfg cs \<rparr>])
            \<and> idle s')"
  proof
    assume "silence_timeout cfg \<le> accumulate ops 0 (trailing_silent cfg (cs @ [Frame f]))"
    then have rd: "silence_timeout cfg \<le> fadd ops (silence_accumulated s) (dur ops f)"
      by (simp add: acc)
    let ?s' = "s\<lparr> silence_accumulated := 0,
                  samples_index := samples_index s + samples_per_channel f,
                  speech_started := False,
                  speech_frames := [],
                  speech_duration := 0,
                  pending_frames := [],
                  pending_duration := 0 \<rparr>"
    let ?e = "\<lparr> ev_type = END_OF_SPEECH, ev_samples_index = speech_start_index s,
                ev_speech_duration = accumulate ops 0 (voiced_frames cfg cs),
                ev_silence_duration = accumulate ops 0 (trailing_silent cfg (cs @ [Frame f])),
                ev_frames = voiced_frames cfg cs \<rparr>"
    have e: "end_event (s\<lparr> silence_accumulated := fadd ops (silence_accumulated s) (dur ops f) \<rparr>)
        = ?e"
      by (simp add: end_event_def fr sd acc)
    from pf_silent_end [OF assms(5,6,4) rd]
    have "handle_chunk ops cfg s (Frame f) = Inr (?s', [?e])"
      by (simp add: handle_chunk_def e)
    from run_chunks_snoc [OF assms(2) this]
    have "run_chunks ops cfg s0 (cs @ [Frame f]) = (None, ?s', evs @ [?e])" .
    moreover have "idle ?s'" by (simp add: idle_def)
    ultimately show "\<exists>s'. run_chunks ops cfg s0 (cs @ [Frame f]) = (None, s', evs @ [?e])
            \<and> idle s'"
      by blast
  qed
  from i0 ev fr sd sil below reach show ?thesis by blast
qed

theorem end_of_speech_when_timeout_reached_witness:
  "idle init_stream
   \<and> sample_rate silent_frame \<noteq> 0 \<and> amp silent_frame < threshold vad_config
   \<and> map ev_type (events_of (run_chunks exact_ops vad_config init_stream
        [Frame voiced_frame, Frame voiced_frame, Frame voiced_frame])) = [START_OF_SPEECH]
   \<and> speech_started (state_of (run_chunks exact_ops vad_config init_stream
        [Frame voiced_frame, Frame voiced_frame, Frame voiced_frame]))
   \<and> accumulate exact_ops 0 (trailing_silent vad_config
        [Frame voiced_frame, Frame voiced_frame, Frame voiced_frame, Frame silent_frame])
       < silence_timeout vad_config
   \<and> run_chunks exact_ops vad_config init_stream
        [Frame voiced_frame, Frame voiced_frame, Frame voiced_frame, Frame silent_frame] =
       (None,
        \<lparr> speech_frames = [voiced_frame, voiced_frame, voiced_frame], pending_frames = [],
          pending_duration = 0, speech_duration = 3/4, silence_accumulated = 1/4,
          speech_started = True, speech_start_index = 2, samples_index = 8 \<rparr>,
        [\<lparr> ev_type = START_OF_SPEECH, ev_samples_index = 2, ev_speech_duration = 0,
           ev_silence_duration = 0, ev_frames = [voiced_frame, voiced_frame] \<rparr>])
   \<and> silence_timeout vad_config
       \<le> accumulate exact_ops 0 (trailing_silent vad_config
            [Frame voiced_frame, Frame voiced_frame, Frame voiced_frame, Frame silent_frame,
             Frame silent_frame])
   \<and> events_of (run_chunks exact_ops vad_config init_stream
        [Frame voiced_frame, Frame voiced_frame, Frame voiced_frame, Frame silent_frame,
         Frame silent_frame]) =
       [\<lparr> ev_type = START_OF_SPEECH, ev_samples_index = 2, ev_speech_duration = 0,
          ev_silence_duration = 0, ev_frames = [voiced_frame, voiced_frame] \<rparr>,
        \<lparr> ev_type = END_OF_SPEECH, ev_samples_index = 2, ev_speech_duration = 3/4,
          ev_silence_duration = 1/2,
          ev_frames = [voiced_frame, voiced_frame, voiced_frame] \<rparr>]
   \<and> idle (state_of (run_chunks exact_ops vad_config init_stream
        [Frame voiced_frame, Frame voiced_frame, Frame voiced_frame, Frame silent_frame,
         Frame silent_frame]))"
proof -
  let ?start = "\<lparr> ev_type = START_OF_SPEECH, ev_samples_index = 2, ev_speech_duration = 0,
      ev_silence_duration = 0, ev_frames = [voiced_frame, voiced_frame] \<rparr>"
  let ?s3 = "\<lparr> speech_frames = [voiced_frame, voiced_frame, voiced_frame], pending_frames = [],
        pending_duration = 0, speech_duration = 3/4, silence_accumulated = 0,
        speech_started = True, speech_start_index = 2, samples_index = 6 \<rparr>"
  let ?s4 = "\<lparr> speech_frames = [voiced_frame, voiced_frame, voiced_frame], pending_frames = [],
        pending_duration = 0, speech_duration = 3/4, silence_accumulated = 1/4,
        speech_started = True, speech_start_index = 2, samples_index = 8 \<rparr>"
  have i0: "idle init_stream" by (simp add: idle_def init_stream_def)
  have q: "sample_rate silent_frame \<noteq> 0" "amp silent_frame < threshold vad_config"
    by (simp_all add: rates amp_silent_frame vad_config_def)
  have noend: "END_OF_SPEECH \<notin> ev_type ` set [?start]" by simp
  have st: "speech_started ?s3" "speech_started ?s4" by simp_all
  have tm: "silence_timeout vad_config = 3/8" by (simp add: vad_config_def)
  note A = end_of_speech_when_timeout_reached [OF i0 run_three_voiced noend st(1) q]
  note B = end_of_speech_when_timeout_reached [OF i0 run_three_voiced_silent noend st(2) q]
  from A have a: "\<exists>s'. run_chunks exact_ops vad_config init_stream
        [Frame voiced_frame, Frame voiced_frame, Frame voiced_frame, Frame silent_frame]
        = (None, s', [?start]) \<and> speech_started s'"
    by (simp add: segment_lists segment_durations tm del: run_chunks.simps)
  from B have b: "\<exists>s'. run_chunks exact_ops vad_config init_stream
        [Frame voiced_frame, Frame voiced_frame, Frame voiced_frame, Frame silent_frame,
         Frame silent_frame]
        = (None, s', [?start,
            \<lparr> ev_type = END_OF_SPEECH, ev_samples_index = 2, ev_speech_duration = 3/4,
              ev_silence_duration = 1/2,
              ev_frames = [voiced_frame, voiced_frame, voiced_frame] \<rparr>]) \<and> idle s'"
    by (simp add: segment_lists segment_durations tm del: run_chunks.simps)
  from a have a': "run_chunks exact_ops vad_config init_stream
        [Frame voiced_frame, Frame voiced_frame, Frame voiced_frame, Frame silent_frame]
        = (None, ?s4, [?start])"
    by (simp add: run_three_voiced_silent del: run_chunks.simps)
  from b obtain s5 where s5: "run_chunks exact_ops vad_config init_stream
        [Frame voiced_frame, Frame voiced_frame, Frame voiced_frame, Frame silent_frame,
         Frame silent_frame]
        = (None, s5, [?start,
            \<lparr> ev_type = END_OF_SPEECH, ev_samples_index = 2, ev_speech_duration = 3/4,
              ev_silence_duration = 1/2,
              ev_frames = [voiced_frame, voiced_frame, voiced_frame] \<rparr>])" "idle s5"
    by blast
  have c: "accumulate exact_ops 0 (trailing_silent vad_config
        [Frame voiced_frame, Frame voiced_frame, Frame voiced_frame, Frame silent_frame])
       < silence_timeout vad_config"
    "silence_timeout vad_config
       \<le> accumulate exact_ops 0 (trailing_silent vad_config
            [Frame voiced_frame, Frame voiced_frame, Frame voiced_frame, Frame silent_frame,
             Frame silent_frame])"
    by (simp_all add: segment_lists segment_durations tm)
  show ?thesis
    using i0 q a' s5 c
    by (simp add: events_of_def state_of_def run_three_voiced del: run_chunks.simps)
qed

section \<open>Start of speech (C2, C10)\<close>





lemma events_of_main_task:
  "events_of (main_task ops cfg cs) =
     events_of (run_chunks ops cfg init_stream cs)
       @ snd (flush (state_of (run_chunks ops cfg init_stream cs)))"
  by (cases "run_chunks ops cfg init_stream cs")
     (simp add: main_task_def events_of_def state_of_def split: prod.splits)

lemma flush_events_end: "e \<in> set (snd (flush s)) \<Longrightarrow> ev_type e = END_OF_SPEECH"
  by (auto simp: flush_def emit_end_def split: if_splits)

text \<open>
  C10: every StartOfSpeech event of a run carries speech duration 0 and silence duration
  0. When a frame confirms speech in a state a fresh stream has reached without an
  exception, the StartOfSpeech is the only event of that frame; its sample index is the
  number of samples of all frames processed before that frame, its frames are the
  candidate buffer with the frame added, and the duration accumulated over these frames
  (which becomes the speech duration of the segment, and is not what the event reports)
  is at least \<open>min_speech_duration\<close>.
\<close>

theorem start_of_speech_event_fields:
  "(\<forall>e \<in> set (events_of (main_task ops cfg cs)).
      ev_type e = START_OF_SPEECH \<longrightarrow> ev_speech_duration e = 0 \<and> ev_silence_duration e = 0)
   \<and> (run_chunks ops cfg init_stream cs = (None, s, evs)
       \<and> process_frame ops cfg s f = Inr (s', evs')
       \<and> e \<in> set evs' \<and> ev_type e = START_OF_SPEECH \<longrightarrow>
         evs' = [e] \<and> ev_speech_duration e = 0 \<and> ev_silence_duration e = 0
         \<and> ev_samples_index e = total_samples (frames_of cs)
         \<and> ev_frames e = pending_frames s @ [f]
         \<and> speech_duration s' = accumulate ops 0 (ev_frames e)
         \<and> min_speech_duration cfg \<le> accumulate ops 0 (ev_frames e))"
proof -
  have a: "\<forall>e \<in> set (events_of (main_task ops cfg cs)).
      ev_type e = START_OF_SPEECH \<longrightarrow> ev_speech_duration e = 0 \<and> ev_silence_duration e = 0"
  proof (intro ballI impI)
    fix x assume x: "x \<in> set (events_of (main_task ops cfg cs))" "ev_type x = START_OF_SPEECH"
    obtain r0 s0 e0 where r0: "run_chunks ops cfg init_stream cs = (r0, s0, e0)"
      by (metis prod_cases3)
    from x(1) have "x \<in> set e0 \<or> x \<in> set (snd (flush s0))"
      unfolding events_of_main_task by (simp add: r0 events_of_def state_of_def)
    then show "ev_speech_duration x = 0 \<and> ev_silence_duration x = 0"
    proof
      assume "x \<in> set e0"
      from run_chunks_start_events [OF r0 this x(2)] show ?thesis .
    next
      assume "x \<in> set (snd (flush s0))"
      from flush_events_end [OF this] x(2) show ?thesis by simp
    qed
  qed
  have b: "run_chunks ops cfg init_stream cs = (None, s, evs)
       \<and> process_frame ops cfg s f = Inr (s', evs')
       \<and> e \<in> set evs' \<and> ev_type e = START_OF_SPEECH \<longrightarrow>
         evs' = [e] \<and> ev_speech_duration e = 0 \<and> ev_silence_duration e = 0
         \<and> ev_samples_index e = total_samples (frames_of cs)
         \<and> ev_frames e = pending_frames s @ [f]
         \<and> speech_duration s' = accumulate ops 0 (ev_frames e)
         \<and> min_speech_duration cfg \<le> accumulate ops 0 (ev_frames e)"
  proof
    assume h: "run_chunks ops cfg init_stream cs = (None, s, evs)
       \<and> process_frame ops cfg s f = Inr (s', evs')
       \<and> e \<in> set evs' \<and> ev_type e = START_OF_SPEECH"
    then have ok: "reached_ok ops cs s" using run_chunks_reached by blast
    from h have pf: "process_frame ops cfg s f = Inr (s', evs')" and mem: "e \<in> set evs'"
      and ty: "ev_type e = START_OF_SPEECH" by simp_all
    from pf show "evs' = [e] \<and> ev_speech_duration e = 0 \<and> ev_silence_duration e = 0
         \<and> ev_samples_index e = total_samples (frames_of cs)
         \<and> ev_frames e = pending_frames s @ [f]
         \<and> speech_duration s' = accumulate ops 0 (ev_frames e)
         \<and> min_speech_duration cfg \<le> accumulate ops 0 (ev_frames e)"
    proof (cases rule: process_frame_cases)
      case voiced_start
      with mem ok show ?thesis
        by (simp add: reached_ok_def accumulate_snoc)
    next
      case silent_end
      with mem ty show ?thesis by (simp add: end_event_def)
    qed (use mem in simp_all)
  qed
  from a b show ?thesis by blast
qed

theorem start_of_speech_event_fields_witness:
  "\<lparr> ev_type = START_OF_SPEECH, ev_samples_index = 2, ev_speech_duration = 0,
      ev_silence_duration = 0, ev_frames = [voiced_frame, voiced_frame] \<rparr>
     \<in> set (events_of (main_task exact_ops vad_config [Frame voiced_frame, Frame voiced_frame]))
   \<and> fst (run_chunks exact_ops vad_config init_stream [Frame voiced_frame]) = None
   \<and> map_sum id snd (process_frame exact_ops vad_config
        (state_of (run_chunks exact_ops vad_config init_stream [Frame voiced_frame])) voiced_frame)
       = Inr [\<lparr> ev_type = START_OF_SPEECH, ev_samples_index = 2, ev_speech_duration = 0,
                ev_silence_duration = 0, ev_frames = [voiced_frame, voiced_frame] \<rparr>]
   \<and> total_samples (frames_of [Frame voiced_frame]) = 2
   \<and> min_speech_duration vad_config \<le> accumulate exact_ops 0 [voiced_frame, voiced_frame]"
proof -
  let ?e = "\<lparr> ev_type = START_OF_SPEECH, ev_samples_index = 2, ev_speech_duration = 0,
      ev_silence_duration = 0, ev_frames = [voiced_frame, voiced_frame] \<rparr>"
  let ?s1 = "\<lparr> speech_frames = [], pending_frames = [voiced_frame], pending_duration = 1/4,
        speech_duration = 0, silence_accumulated = 0, speech_started = False,
        speech_start_index = 0, samples_index = 2 \<rparr>"
  have r1: "run_chunks exact_ops vad_config init_stream [Frame voiced_frame] = (None, ?s1, [])"
    by (simp add: handle_chunk_def first_voiced)
  have 2: "process_frame exact_ops vad_config ?s1 voiced_frame = Inr (speaking_stream, [?e])"
    by (simp add: second_voiced speaking_stream_eq)
  have mt: "events_of (main_task exact_ops vad_config [Frame voiced_frame, Frame voiced_frame]) =
      [?e, end_event speaking_stream]"
    unfolding events_of_main_task
    by (simp add: run_two_voiced events_of_def state_of_def flush_def
        emit_end_def end_event_def speaking_stream_eq del: run_chunks.simps)
  have mem: "?e \<in> set (events_of (main_task exact_ops vad_config
      [Frame voiced_frame, Frame voiced_frame]))"
    by (simp add: mt)
  have mem2: "?e \<in> set [?e]" by simp
  have ty: "ev_type ?e = START_OF_SPEECH" by simp
  note T = start_of_speech_event_fields
    [of exact_ops vad_config "[Frame voiced_frame]" ?s1 "[]" voiced_frame speaking_stream "[?e]" ?e]
  from T r1 2 mem2 have idx: "ev_samples_index ?e = total_samples (frames_of [Frame voiced_frame])"
    and dur: "min_speech_duration vad_config \<le> accumulate exact_ops 0 (ev_frames ?e)"
    by simp_all
  from idx dur mem 2 r1 show ?thesis
    by (simp add: state_of_def)
qed

section \<open>Transcript extraction (C5)\<close>

lemma spec_first_match_simps [simp]:
  "spec_first_match [] = None"
  "spec_first_match (None # rs) = spec_first_match rs"
  "spec_first_match (Some x # rs) = Some x"
  by (simp_all add: spec_first_match_def)

lemma spec_first_match_append:
  "spec_first_match (xs @ ys) =
     (case spec_first_match xs of Some r \<Rightarrow> Some r | None \<Rightarrow> spec_first_match ys)"
proof (induction xs)
  case Nil
  then show ?case by simp
next
  case (Cons x xs)
  then show ?case by (cases x) simp_all
qed

lemma first_text_key_spec:
  "first_text_key body keys = spec_first_match (map (spec_direct_text body) keys)"
proof (induction keys)
  case Nil
  then show ?case by simp
next
  case (Cons key keys)
  then show ?case
    by (simp add: spec_direct_text_def split: option.splits json.splits)
qed

lemma first_text_key_nonempty: "first_text_key body keys \<noteq> Some []"
  by (induction keys) (auto split: option.splits json.splits)

text \<open>No branch of the extraction returns an empty string.\<close>

lemma extract_nonempty:
  "extract_transcription b \<noteq> Some []"
  "extract_parts ps \<noteq> Some []"
  "extract_nested d ks \<noteq> Some []"
proof (induction b and ps and d ks rule: extract_transcription_extract_parts_extract_nested.induct)
  case (1 body)
  then show ?case by (simp add: Let_def)
next
  case (3 body)
  then show ?case
    using first_text_key_nonempty
      [of body "[''text'', ''transcript'', ''transcription'', ''result'', ''output'']"]
    by (auto simp del: first_text_key.simps extract_nested.simps
        split: option.splits)
next
  case (8 part rest)
  then show ?case by (auto split: option.splits)
next
  case (10 body key keys)
  then show ?case by (auto split: option.splits json.splits)
qed simp_all

lemma extract_parts_spec:
  "extract_parts ps = spec_first_match (map extract_transcription ps)"
proof (induction ps)
  case Nil
  then show ?case by simp
next
  case (Cons p ps)
  show ?case
  proof (cases "extract_transcription p")
    case None
    with Cons show ?thesis by simp
  next
    case (Some c)
    with extract_nonempty(1) [of p] have "c \<noteq> []" by auto
    with Some show ?thesis by simp
  qed
qed

lemma extract_nested_spec:
  "extract_nested body keys =
     spec_first_match (map extract_transcription (concat (map (spec_list_items body) keys)))"
proof (induction keys)
  case Nil
  then show ?case by simp
next
  case (Cons key keys)
  show ?case
  proof (cases "\<exists>items. map_of body key = Some (JList items)")
    case True
    then obtain items where it: "map_of body key = Some (JList items)" by blast
    then have "spec_list_items body key = items" by (simp add: spec_list_items_def)
    with it Cons show ?thesis
      by (simp add: spec_first_match_append extract_parts_spec split: option.splits)
  next
    case False
    then have "spec_list_items body key = []"
      by (auto simp: spec_list_items_def split: option.splits json.splits)
    moreover from False have "extract_nested body (key # keys) = extract_nested body keys"
      by (auto split: option.splits json.splits)
    ultimately show ?thesis using Cons by simp
  qed
qed

text \<open>
  C5: on a string the extraction returns the stripped text, or nothing when that is empty.
  On a dict it tries the direct keys \<open>text\<close>, \<open>transcript\<close>, \<open>transcription\<close>, \<open>result\<close>,
  \<open>output\<close> in this order (a key counts when its value is a string that is not blank) and
  then the elements under the list-valued keys \<open>segments\<close>, \<open>alternatives\<close>, \<open>data\<close>, in
  this order, with the same search on each element; on a list it searches each element in
  order. The result is the first match of that traversal and is never empty. The two
  bodies of the specification give \<open>hi\<close> and \<open>ok\<close>.
\<close>

theorem extract_transcription_search_order:
  "extract_transcription (JStr s) = (if strip s = [] then None else Some (strip s))
   \<and> extract_transcription (JList parts) = spec_first_match (map extract_transcription parts)
   \<and> extract_transcription (JDict body) =
       spec_first_match
         (map (spec_direct_text body)
             [''text'', ''transcript'', ''transcription'', ''result'', ''output''] @
          map extract_transcription
             (concat (map (spec_list_items body) [''segments'', ''alternatives'', ''data''])))
   \<and> extract_transcription b \<noteq> Some []
   \<and> extract_transcription (JDict [(''segments'', JList [JDict [(''text'', JStr ''hi'')]])])
       = Some ''hi''
   \<and> extract_transcription (JList [JStr [], JDict [(''transcript'', JStr ''ok'')]])
       = Some ''ok''"
proof -
  have 1: "extract_transcription (JStr s) = (if strip s = [] then None else Some (strip s))"
    by (simp add: Let_def)
  have 2: "extract_transcription (JList parts) = spec_first_match (map extract_transcription parts)"
    by (simp add: extract_parts_spec)
  have 3: "extract_transcription (JDict body) =
       spec_first_match
         (map (spec_direct_text body)
             [''text'', ''transcript'', ''transcription'', ''result'', ''output''] @
          map extract_transcription
             (concat (map (spec_list_items body) [''segments'', ''alternatives'', ''data''])))"
    unfolding spec_first_match_append
    by (simp only: extract_transcription.simps first_text_key_spec extract_nested_spec)
  have 4: "extract_transcription b \<noteq> Some []"
    by (rule extract_nonempty)
  have 5: "extract_transcription (JDict [(''segments'', JList [JDict [(''text'', JStr ''hi'')]])])
       = Some ''hi''"
    by (simp add: strip_def is_space_def)
  have 6: "extract_transcription (JList [JStr [], JDict [(''transcript'', JStr ''ok'')]])
       = Some ''ok''"
    by (simp add: strip_def is_space_def)
  from 1 2 3 4 5 6 show ?thesis by blast
qed

section \<open>Empty transcripts (C6)\<close>

text \<open>
  C6: when the response of the transcription request has a 2xx status and the search
  finds no transcript in its body, \<open>recognize_impl\<close> returns normally, with a final
  transcript event whose list of alternatives is empty.
\<close>

theorem recognize_empty_transcript_is_result:
  assumes "is_success response"
    and "extract_transcription (response_body response) = None"
  shows "recognize_impl opts language audio_duration (Responded response) =
     Inr \<lparr> se_type = FINAL_TRANSCRIPT,
           se_request_id = header_get response ''x-request-id'' [],
           se_alternatives = [],
           se_audio_duration = audio_duration \<rparr>"
  using assms by (simp add: recognize_impl_def Let_def)

theorem recognize_empty_transcript_is_result_witness:
  "is_success blank_response
   \<and> extract_transcription (response_body blank_response) = None
   \<and> recognize_impl stt_options None 2 (Responded blank_response) =
       Inr \<lparr> se_type = FINAL_TRANSCRIPT, se_request_id = ''r1'',
             se_alternatives = [], se_audio_duration = 2 \<rparr>"
proof -
  have s: "is_success blank_response"
    by (simp add: is_success_def blank_response_def)
  have n: "extract_transcription (response_body blank_response) = None"
    by (simp add: response_body_def blank_response_def strip_def is_space_def)
  have h: "header_get blank_response ''x-request-id'' [] = ''r1''"
    by (simp add: header_get_def blank_response_def)
  from recognize_empty_transcript_is_result [OF s n, of stt_options None 2] s n h
  show ?thesis by simp
qed

section \<open>Updating the synthesis options (C7)\<close>

text \<open>
  Against C7 as stated: a call that supplies the empty string as the voice does not
  change the voice field, so the next request is built with the old voice and not with
  the one supplied.
\<close>

theorem update_options_empty_voice_counterexample:
  "tts_voice (update_options None (Some []) None None tts_options) = ''jenny_dioco''
   \<and> p_voice (tts_payload (update_options None (Some []) None None tts_options) ''hello'')
       = ''jenny_dioco''"
  by (simp add: update_options_def tts_payload_def tts_options_def)

text \<open>
  C7, amended: a call of \<open>update_options\<close> that supplies only a voice \<open>v\<close> never changes the
  model, the speed or the response format. When \<open>v\<close> is not empty it sets the voice field
  to \<open>v\<close> and nothing else, and the next request carries the old model, speed and format
  together with \<open>v\<close>; when \<open>v\<close> is the empty string the options stay as they were.
\<close>

theorem update_options_voice_only:
  "tts_model (update_options None (Some v) None None opts) = tts_model opts
   \<and> tts_speed (update_options None (Some v) None None opts) = tts_speed opts
   \<and> tts_response_format (update_options None (Some v) None None opts) = tts_response_format opts
   \<and> (v \<noteq> [] \<longrightarrow>
        update_options None (Some v) None None opts = opts\<lparr> tts_voice := v \<rparr>
        \<and> tts_payload (update_options None (Some v) None None opts) input_text =
            \<lparr> p_model = tts_model opts, p_voice = v, p_input = input_text,
              p_response_format = tts_response_format opts, p_speed = tts_speed opts \<rparr>)
   \<and> (v = [] \<longrightarrow> update_options None (Some v) None None opts = opts)"
  by (simp add: update_options_def tts_payload_def)

theorem update_options_voice_only_witness:
  "''anna'' \<noteq> []
   \<and> update_options None (Some ''anna'') None None tts_options = tts_options\<lparr> tts_voice := ''anna'' \<rparr>
   \<and> tts_payload (update_options None (Some ''anna'') None None tts_options) ''hello'' =
       \<lparr> p_model = ''piper'', p_voice = ''anna'', p_input = ''hello'',
         p_response_format = ''mp3'', p_speed = 1 \<rparr>
   \<and> update_options None (Some []) None None tts_options = tts_options"
proof -
  have f: "tts_model tts_options = ''piper''" "tts_response_format tts_options = ''mp3''"
    "tts_speed tts_options = 1"
    by (simp_all add: tts_options_def)
  have ne: "''anna'' \<noteq> []" by simp
  from update_options_voice_only [of "''anna''" tts_options "''hello''"] ne
  have a: "update_options None (Some ''anna'') None None tts_options
             = tts_options\<lparr> tts_voice := ''anna'' \<rparr>"
    and b: "tts_payload (update_options None (Some ''anna'') None None tts_options) ''hello'' =
       \<lparr> p_model = tts_model tts_options, p_voice = ''anna'', p_input = ''hello'',
         p_response_format = tts_response_format tts_options, p_speed = tts_speed tts_options \<rparr>"
    by blast+
  from update_options_voice_only [of "[]" tts_options "''hello''"]
  have c: "update_options None (Some []) None None tts_options = tts_options"
    by blast
  from b have b': "tts_payload (update_options None (Some ''anna'') None None tts_options) ''hello'' =
       \<lparr> p_model = ''piper'', p_voice = ''anna'', p_input = ''hello'',
         p_response_format = ''mp3'', p_speed = 1 \<rparr>"
    by (simp only: f)
  from ne a b' c show ?thesis by blast
qed

section \<open>The session registry (C8, C9)\<close>

lemma run_task_with_room_lock:
  "run_task (with_room_lock [act]) reg =
     (if room_lock_locked reg \<or> act = Acquire then None
      else Some ((perform act (reg\<lparr> room_lock_locked := True \<rparr>))\<lparr> room_lock_locked := False \<rparr>))"
  by (cases act) (simp_all add: with_room_lock_def enabled_def)

lemma register_unlocked:
  "\<not> room_lock_locked reg \<Longrightarrow>
   register now room identity name s a m reg =
     Some (new_session now room identity name s a m,
           reg\<lparr> sessions := AList.update room (new_session now room identity name s a m)
                              (sessions reg) \<rparr>)"
  by (simp add: register_def register_task_def run_task_with_room_lock)

lemma unregister_unlocked:
  "\<not> room_lock_locked reg \<Longrightarrow>
   unregister room reg =
     Some (map_of (sessions reg) room, reg\<lparr> sessions := AList.delete room (sessions reg) \<rparr>)"
  by (simp add: unregister_def unregister_task_def run_task_with_room_lock)

lemma register_locked:
  "room_lock_locked reg \<Longrightarrow> register now room identity name s a m reg = None"
  by (simp add: register_def register_task_def run_task_with_room_lock)

lemma unregister_locked: "room_lock_locked reg \<Longrightarrow> unregister room reg = None"
  by (simp add: unregister_def unregister_task_def run_task_with_room_lock)

lemma update_keeps_names:
  "\<forall>entry \<in> set xs. room_name (snd entry) = fst entry \<Longrightarrow> room_name v = k \<Longrightarrow>
   \<forall>entry \<in> set (AList.update k v xs). room_name (snd entry) = fst entry"
  by (induction xs) auto

lemma delete_keeps_names:
  "\<forall>entry \<in> set xs. room_name (snd entry) = fst entry \<Longrightarrow>
   \<forall>entry \<in> set (AList.delete k xs). room_name (snd entry) = fst entry"
  by (auto simp: AList.delete_eq)

lemma room_name_new_session [simp]: "room_name (new_session now room identity name s a m) = room"
  by (simp add: new_session_def)

lemma registry_ok_store:
  assumes "registry_ok reg" and "room_name session = room"
  shows "registry_ok (reg\<lparr> sessions := AList.update room session (sessions reg) \<rparr>)"
proof -
  from assms(1) have "\<forall>entry \<in> set (sessions reg). room_name (snd entry) = fst entry"
    by (simp add: registry_ok_def)
  from update_keeps_names [OF this assms(2)] assms(1) show ?thesis
    by (simp add: registry_ok_def distinct_update)
qed

lemma registry_ok_pop:
  assumes "registry_ok reg"
  shows "registry_ok (reg\<lparr> sessions := AList.delete room (sessions reg) \<rparr>)"
proof -
  from assms have "\<forall>entry \<in> set (sessions reg). room_name (snd entry) = fst entry"
    by (simp add: registry_ok_def)
  from delete_keeps_names [OF this] assms show ?thesis
    by (simp add: registry_ok_def distinct_delete)
qed

lemma registry_ok_greeting: "registry_ok reg \<Longrightarrow> registry_ok (record_greeting now identity reg)"
  by (simp add: registry_ok_def record_greeting_def)

lemma apply_op_ok:
  assumes "registry_ok reg"
  shows "\<exists>reg1. apply_op op reg = Some reg1 \<and> registry_ok reg1"
proof -
  from assms have nl: "\<not> room_lock_locked reg" by (simp add: registry_ok_def)
  show ?thesis
  proof (cases op)
    case (Register now room identity name s a m)
    with register_unlocked [OF nl, of now room identity name s a m]
      registry_ok_store [OF assms, of "new_session now room identity name s a m" room]
    show ?thesis by (simp add: apply_op_def)
  next
    case (Unregister room)
    with unregister_unlocked [OF nl, of room] registry_ok_pop [OF assms, of room]
    show ?thesis by (simp add: apply_op_def)
  next
    case (RecordGreeting now identity)
    with registry_ok_greeting [OF assms, of now identity]
    show ?thesis by (simp add: apply_op_def)
  qed
qed

lemma apply_ops_ok:
  "registry_ok reg \<Longrightarrow> \<exists>reg1. apply_ops ops reg = Some reg1 \<and> registry_ok reg1"
proof (induction ops arbitrary: reg)
  case Nil
  then show ?case by simp
next
  case (Cons op ops)
  from apply_op_ok [OF Cons.prems, of op] obtain reg1 where
    "apply_op op reg = Some reg1" "registry_ok reg1" by blast
  with Cons.IH [of reg1] show ?case by simp
qed

lemma registry_ok_new: "registry_ok new_registry"
  by (simp add: registry_ok_def new_registry_def)

text \<open>With one entry per key and every record under its own name, a room has at most one record.\<close>

lemma records_for_map_of:
  assumes "distinct (map fst xs)" and "\<forall>entry \<in> set xs. room_name (snd entry) = fst entry"
  shows "filter (\<lambda>session. room_name session = room) (map snd xs) =
     (case map_of xs room of Some v \<Rightarrow> [v] | None \<Rightarrow> [])"
  using assms
proof (induction xs)
  case Nil
  then show ?case by simp
next
  case (Cons p xs)
  obtain k v where p: "p = (k, v)" by (cases p)
  from Cons.prems have nm: "room_name v = k" and d: "k \<notin> fst ` set xs"
    and rest: "distinct (map fst xs)" "\<forall>entry \<in> set xs. room_name (snd entry) = fst entry"
    by (simp_all add: p)
  note IH = Cons.IH [OF rest]
  show ?case
  proof (cases "k = room")
    case True
    with d have "map_of xs room = None" by (simp add: map_of_eq_None_iff)
    with IH True nm show ?thesis by (simp add: p)
  next
    case False
    with IH nm show ?thesis by (simp add: p)
  qed
qed

lemma records_for_ok:
  "registry_ok reg \<Longrightarrow>
   records_for reg room = (case get reg room of Some v \<Rightarrow> [v] | None \<Rightarrow> [])"
  by (simp add: records_for_def list_sessions_def get_def registry_ok_def records_for_map_of)

text \<open>
  C8: every sequence of registry operations, each run to its end, on a new registry runs
  to its end, and in the registry it leaves the keys are distinct and every room name has
  at most one record. In such a registry, register stores exactly the record built from
  its own arguments and the current time, as the only record of its room, whether the room
  was registered before or not (nothing of an older record is kept), and leaves the other
  rooms as they were; unregister returns the record of the room (nothing when there is
  none) and removes it, and a second unregister of the same room returns nothing and
  changes nothing.
\<close>

theorem registry_one_record_per_room:
  "(\<exists>reg. apply_ops ops new_registry = Some reg)
   \<and> (apply_ops ops new_registry = Some reg \<longrightarrow>
        distinct (map fst (sessions reg))
        \<and> length (records_for reg other) \<le> 1
        \<and> (let session = \<lparr> room_name = room, user_identity = identity, user_name = name,
                            created_at = now, agent_session = s, agent = a,
                            metadata = (case m of Some x \<Rightarrow> x | None \<Rightarrow> []) \<rparr>;
                reg1 = reg\<lparr> sessions := AList.update room session (sessions reg) \<rparr>
            in register now room identity name s a m reg = Some (session, reg1)
               \<and> records_for reg1 room = [session]
               \<and> get reg1 room = Some session
               \<and> (other \<noteq> room \<longrightarrow> get reg1 other = get reg other))
        \<and> (let reg2 = reg\<lparr> sessions := AList.delete room (sessions reg) \<rparr>
            in unregister room reg = Some (get reg room, reg2)
               \<and> get reg2 room = None
               \<and> records_for reg2 room = []
               \<and> (other \<noteq> room \<longrightarrow> get reg2 other = get reg other)
               \<and> unregister room reg2 = Some (None, reg2)))"
proof -
  have ex: "\<exists>reg. apply_ops ops new_registry = Some reg"
    using apply_ops_ok [OF registry_ok_new, of ops] by blast
  have main: "apply_ops ops new_registry = Some reg \<longrightarrow>
        distinct (map fst (sessions reg))
        \<and> length (records_for reg other) \<le> 1
        \<and> (let session = \<lparr> room_name = room, user_identity = identity, user_name = name,
                            created_at = now, agent_session = s, agent = a,
                            metadata = (case m of Some x \<Rightarrow> x | None \<Rightarrow> []) \<rparr>;
                reg1 = reg\<lparr> sessions := AList.update room session (sessions reg) \<rparr>
            in register now room identity name s a m reg = Some (session, reg1)
               \<and> records_for reg1 room = [session]
               \<and> get reg1 room = Some session
               \<and> (other \<noteq> room \<longrightarrow> get reg1 other = get reg other))
        \<and> (let reg2 = reg\<lparr> sessions := AList.delete room (sessions reg) \<rparr>
            in unregister room reg = Some (get reg room, reg2)
               \<and> get reg2 room = None
               \<and> records_for reg2 room = []
               \<and> (other \<noteq> room \<longrightarrow> get reg2 other = get reg other)
               \<and> unregister room reg2 = Some (None, reg2))"
  proof
    assume run: "apply_ops ops new_registry = Some reg"
    with apply_ops_ok [OF registry_ok_new, of ops] have ok: "registry_ok reg" by auto
    then have nl: "\<not> room_lock_locked reg" and d: "distinct (map fst (sessions reg))"
      by (simp_all add: registry_ok_def)
    have one: "length (records_for reg other) \<le> 1"
      by (simp add: records_for_ok [OF ok] split: option.splits)
    let ?session = "\<lparr> room_name = room, user_identity = identity, user_name = name,
             created_at = now, agent_session = s, agent = a,
             metadata = (case m of Some x \<Rightarrow> x | None \<Rightarrow> []) \<rparr>"
    let ?reg1 = "reg\<lparr> sessions := AList.update room ?session (sessions reg) \<rparr>"
    have r: "register now room identity name s a m reg = Some (?session, ?reg1)"
      using register_unlocked [OF nl, of now room identity name s a m]
      by (simp add: new_session_def)
    have ok1: "registry_ok ?reg1" using registry_ok_store [OF ok, of ?session room] by simp
    have g1: "get ?reg1 room = Some ?session"
      by (simp add: get_def update_conv')
    have g1o: "other \<noteq> room \<longrightarrow> get ?reg1 other = get reg other"
      by (simp add: get_def update_conv')
    have rec1: "records_for ?reg1 room = [?session]"
      using records_for_ok [OF ok1, of room] g1 by simp
    let ?reg2 = "reg\<lparr> sessions := AList.delete room (sessions reg) \<rparr>"
    have u: "unregister room reg = Some (get reg room, ?reg2)"
      using unregister_unlocked [OF nl] by (simp add: get_def)
    have ok2: "registry_ok ?reg2" using registry_ok_pop [OF ok] .
    then have nl2: "\<not> room_lock_locked ?reg2" by (simp add: registry_ok_def)
    have g2: "get ?reg2 room = None"
      by (simp add: get_def delete_conv')
    have g2o: "other \<noteq> room \<longrightarrow> get ?reg2 other = get reg other"
      by (simp add: get_def delete_conv')
    have rec2: "records_for ?reg2 room = []"
      using records_for_ok [OF ok2, of room] g2 by simp
    have "AList.delete room (AList.delete room (sessions reg)) = AList.delete room (sessions reg)"
      by (simp add: delete_idem)
    then have u2: "unregister room ?reg2 = Some (None, ?reg2)"
      using unregister_unlocked [OF nl2, of room] g2 by (simp add: get_def)
    from d one r rec1 g1 g1o u g2 rec2 g2o u2
    show "distinct (map fst (sessions reg))
        \<and> length (records_for reg other) \<le> 1
        \<and> (let session = \<lparr> room_name = room, user_identity = identity, user_name = name,
                            created_at = now, agent_session = s, agent = a,
                            metadata = (case m of Some x \<Rightarrow> x | None \<Rightarrow> []) \<rparr>;
                reg1 = reg\<lparr> sessions := AList.update room session (sessions reg) \<rparr>
            in register now room identity name s a m reg = Some (session, reg1)
               \<and> records_for reg1 room = [session]
               \<and> get reg1 room = Some session
               \<and> (other \<noteq> room \<longrightarrow> get reg1 other = get reg other))
        \<and> (let reg2 = reg\<lparr> sessions := AList.delete room (sessions reg) \<rparr>
            in unregister room reg = Some (get reg room, reg2)
               \<and> get reg2 room = None
               \<and> records_for reg2 room = []
               \<and> (other \<noteq> room \<longrightarrow> get reg2 other = get reg other)
               \<and> unregister room reg2 = Some (None, reg2))"
      unfolding Let_def by blast
  qed
  from ex main show ?thesis by blast
qed

lemma room_a_ops_run: "apply_ops room_a_ops new_registry = Some registry_ab"
  by (simp add: room_a_ops_def apply_op_def register_def register_task_def
      run_task_with_room_lock new_registry_def registry_ab_def new_session_def)

theorem registry_one_record_per_room_witness:
  "apply_ops room_a_ops new_registry = Some registry_ab
   \<and> map fst (sessions registry_ab) = [''A'', ''B'']
   \<and> map metadata (records_for registry_ab ''A'') = [[(''lang'', 7)]]
   \<and> records_for (snd (the (register 3 ''A'' ''u3'' ''Cy'' None None None registry_ab))) ''A''
       = [\<lparr> room_name = ''A'', user_identity = ''u3'', user_name = ''Cy'', created_at = 3,
            agent_session = None, agent = None, metadata = [] \<rparr>]
   \<and> fst (the (register 3 ''A'' ''u3'' ''Cy'' None None None registry_ab))
       = \<lparr> room_name = ''A'', user_identity = ''u3'', user_name = ''Cy'', created_at = 3,
            agent_session = None, agent = None, metadata = [] \<rparr>
   \<and> get (snd (the (register 3 ''A'' ''u3'' ''Cy'' None None None registry_ab))) ''B''
       = get registry_ab ''B''
   \<and> fst (the (unregister ''A'' registry_ab)) = get registry_ab ''A''
   \<and> get registry_ab ''A'' \<noteq> None
   \<and> get (snd (the (unregister ''A'' registry_ab))) ''A'' = None
   \<and> fst (the (unregister ''A'' (snd (the (unregister ''A'' registry_ab))))) = None"
proof -
  note T = registry_one_record_per_room
    [of room_a_ops registry_ab "''B''" "''A''" "''u3''" "''Cy''" 3 None None None]
  have keys: "map fst (sessions registry_ab) = [''A'', ''B'']"
    by (simp add: registry_ab_def)
  have recs: "map metadata (records_for registry_ab ''A'') = [[(''lang'', 7)]]"
    by (simp add: records_for_def list_sessions_def registry_ab_def)
  have present: "get registry_ab ''A'' \<noteq> None"
    by (simp add: get_def registry_ab_def)
  have ne: "''B'' \<noteq> ''A''" by simp
  from T room_a_ops_run ne keys recs present show ?thesis
    by (simp add: Let_def)
qed

subsection \<open>The room lock (C9)\<close>

lemma task_rest_task_of: "task_rest (task_of op)"
  by (cases op)
     (auto simp: task_rest_def register_task_def unregister_task_def record_greeting_task_def
        with_room_lock_def writes_sessions_def)

lemma not_holding_task_of: "\<not> holding (task_of op)"
  by (cases op)
     (auto simp: holding_def register_task_def unregister_task_def record_greeting_task_def
        with_room_lock_def)

lemma task_of_no_write_first: "task_of op = act # rest \<Longrightarrow> \<not> writes_sessions act"
  by (cases op)
     (auto simp: register_task_def unregister_task_def record_greeting_task_def
        with_room_lock_def writes_sessions_def)

text \<open>The four kinds of step a task can take, and what each does to its critical section.\<close>

lemma task_rest_cases:
  assumes "task_rest (act # rest)"
  obtains
    (acquire) "act = Acquire" "holding rest" "\<not> holding (act # rest)" "task_rest rest"
      "\<exists>w more. rest = w # more \<and> writes_sessions w"
  | (session_write) "writes_sessions act" "holding rest" "holding (act # rest)" "task_rest rest"
      "rest = [Release]"
  | (release) "act = Release" "rest = []" "holding (act # rest)"
  | (greeting) "\<exists>identity now. act = StoreGreeting identity now" "rest = []"
      "\<not> holding (act # rest)"
proof -
  from assms consider
    (a) "act = Release" "rest = []"
  | (b) "writes_sessions act" "rest = [Release]"
  | (c) w where "act = Acquire" "rest = [w, Release]" "writes_sessions w"
  | (d) identity now where "act = StoreGreeting identity now" "rest = []"
    by (auto simp: task_rest_def)
  then show thesis
  proof cases
    case a
    then show ?thesis by (intro release) (simp_all add: holding_def)
  next
    case b
    then have "act \<noteq> Acquire" by (auto simp: writes_sessions_def)
    with b show ?thesis
      by (intro session_write) (simp_all add: holding_def task_rest_def)
  next
    case c
    then have "w \<noteq> Acquire" by (auto simp: writes_sessions_def)
    with c show ?thesis
      by (intro acquire) (auto simp: holding_def task_rest_def)
  next
    case d
    then show ?thesis by (intro greeting) (auto simp: holding_def)
  qed
qed

lemma holding_Nil [simp]: "\<not> holding []"
  by (simp add: holding_def)

lemma task_rest_Nil [simp]: "task_rest []"
  by (simp add: task_rest_def)

lemma perform_lock:
  "room_lock_locked (perform act reg) =
     (if act = Acquire then True else if act = Release then False else room_lock_locked reg)"
  by (cases act) simp_all

lemma step_task_keeps:
  assumes ex: "exclusive (reg, pool)" and shape: "\<forall>t \<in> set pool. task_rest t"
  shows "exclusive (step_task i (reg, pool)) \<and> (\<forall>t \<in> set (snd (step_task i (reg, pool))). task_rest t)"
proof (cases "i < length pool \<and> pool ! i \<noteq> [] \<and> enabled (hd (pool ! i)) reg")
  case False
  then have "step_task i (reg, pool) = (reg, pool)"
    by (auto simp: step_task_def split: list.splits)
  with ex shape show ?thesis by simp
next
  case True
  then obtain act rest where i: "i < length pool" and pi: "pool ! i = act # rest"
    and en: "enabled act reg"
    by (cases "pool ! i") auto
  have st: "step_task i (reg, pool) = (perform act reg, pool[i := rest])"
    using i pi en by (simp add: step_task_def)
  have tr: "task_rest (act # rest)" using shape i pi by (metis nth_mem)
  from ex have uniq: "\<And>a b. a < length pool \<Longrightarrow> b < length pool \<Longrightarrow>
      holding (pool ! a) \<Longrightarrow> holding (pool ! b) \<Longrightarrow> a = b"
    and lock: "room_lock_locked reg \<longleftrightarrow> (\<exists>a < length pool. holding (pool ! a))"
    and wr: "\<And>a w more. a < length pool \<Longrightarrow> pool ! a = w # more \<Longrightarrow> writes_sessions w \<Longrightarrow>
      holding (pool ! a)"
    by (auto simp: exclusive_def)
  have nth: "\<And>a. a < length pool \<Longrightarrow> pool[i := rest] ! a = (if a = i then rest else pool ! a)"
    by (simp add: nth_list_update)
  have shape': "\<forall>t \<in> set (pool[i := rest]). task_rest t"
  proof
    fix t assume "t \<in> set (pool[i := rest])"
    then have "t = rest \<or> t \<in> set pool"
      using set_update_subset_insert [of pool i rest] by auto
    moreover have "task_rest rest" using tr by (cases rule: task_rest_cases) simp_all
    ultimately show "task_rest t" using shape by auto
  qed
  from tr have "exclusive (perform act reg, pool[i := rest])"
  proof (cases rule: task_rest_cases)
    case acquire
    from en acquire(1) have free: "\<not> room_lock_locked reg" by (simp add: enabled_def)
    with lock have none: "\<And>a. a < length pool \<Longrightarrow> \<not> holding (pool ! a)" by blast
    show ?thesis
      unfolding exclusive_def
      using acquire i none wr nth
      by (auto simp: perform_lock split: if_splits)
  next
    case session_write
    then have na: "act \<noteq> Acquire" "act \<noteq> Release"
      by (auto simp: writes_sessions_def)
    have hi: "holding (pool ! i)" using session_write(3) pi by simp
    have others: "\<And>a. a < length pool \<Longrightarrow> a \<noteq> i \<Longrightarrow> \<not> holding (pool ! a)"
      using uniq [OF _ i _ hi] by blast
    show ?thesis
      unfolding exclusive_def
      using session_write i hi others wr nth lock na
      by (auto simp: perform_lock split: if_splits)
  next
    case release
    have hi: "holding (pool ! i)" using release(3) pi by simp
    have others: "\<And>a. a < length pool \<Longrightarrow> a \<noteq> i \<Longrightarrow> \<not> holding (pool ! a)"
      using uniq [OF _ i _ hi] by blast
    show ?thesis
      unfolding exclusive_def
      using release i others wr nth
      by (auto simp: perform_lock split: if_splits)
  next
    case greeting
    then have na: "act \<noteq> Acquire" "act \<noteq> Release" by auto
    have hi: "\<not> holding (pool ! i)" using greeting(3) pi by simp
    show ?thesis
      unfolding exclusive_def
      using greeting i hi uniq wr nth lock na
      by (auto simp: perform_lock split: if_splits)
  qed
  with shape' st show ?thesis by simp
qed

lemma run_schedule_keeps:
  "exclusive cfg \<Longrightarrow> \<forall>t \<in> set (snd cfg). task_rest t \<Longrightarrow>
   exclusive (run_schedule schedule cfg) \<and> (\<forall>t \<in> set (snd (run_schedule schedule cfg)). task_rest t)"
proof (induction schedule arbitrary: cfg)
  case Nil
  then show ?case by (simp add: run_schedule_def)
next
  case (Cons i schedule)
  obtain reg pool where cfg: "cfg = (reg, pool)" by (cases cfg)
  from step_task_keeps [of reg pool i] Cons.prems cfg
  have "exclusive (step_task i cfg)" "\<forall>t \<in> set (snd (step_task i cfg)). task_rest t"
    by simp_all
  from Cons.IH [OF this] show ?case by (simp add: run_schedule_def)
qed

lemma exclusive_start:
  "\<not> room_lock_locked reg \<Longrightarrow> exclusive (reg, map task_of ops)"
  by (auto simp: exclusive_def not_holding_task_of dest: task_of_no_write_first)

text \<open>
  Against C9 as stated: \<open>record_greeting\<close> does not acquire the room lock. While the lock
  is held by another task, \<open>register\<close> waits, but \<open>record_greeting\<close> writes the greeting
  ledger all the same.
\<close>

theorem record_greeting_lock_counterexample:
  "room_lock_locked locked_registry
   \<and> run_task (register_task 1 ''A'' ''u1'' ''Ann'' None None None) locked_registry = None
   \<and> register 1 ''A'' ''u1'' ''Ann'' None None None locked_registry = None
   \<and> greeting_times locked_registry = []
   \<and> map_option greeting_times (run_task (record_greeting_task 5 ''u1'') locked_registry)
       = Some [(''u1'', 5)]
   \<and> greeting_times (record_greeting 5 ''u1'' locked_registry) = [(''u1'', 5)]"
  by (simp add: locked_registry_def new_registry_def register_def register_task_def
      run_task_with_room_lock record_greeting_task_def record_greeting_def enabled_def)

text \<open>
  C9, amended: \<open>register\<close> and \<open>unregister\<close> acquire the room lock of the registry as their
  first step, before they touch the session map, and release it as their last step; while
  the lock is held they do not run. So, however the steps of any number of concurrent
  registry operations are interleaved from a state with the lock free, at most one
  operation is between its acquire and its release at any time, the lock is held exactly
  then, and every write of the session map is made by that operation: no two of them
  interleave on the session map. \<open>record_greeting\<close> acquires no lock: whatever the state of
  the lock, it writes the time for the identity into the greeting ledger, and it leaves
  the session map and the lock as they are.
\<close>

theorem registry_lock_discipline:
  "(\<not> room_lock_locked reg \<longrightarrow> exclusive (run_schedule schedule (reg, map task_of ops)))
   \<and> (room_lock_locked reg \<longrightarrow>
        register now room identity name s a m reg = None \<and> unregister room reg = None)
   \<and> register_task now room identity name s a m =
       [Acquire, StoreSession room (new_session now room identity name s a m), Release]
   \<and> unregister_task room = [Acquire, PopSession room, Release]
   \<and> Acquire \<notin> set (record_greeting_task now identity)
   \<and> run_task (record_greeting_task now identity) reg = Some (record_greeting now identity reg)
   \<and> greeting_times (record_greeting now identity reg)
       = AList.update identity now (greeting_times reg)
   \<and> sessions (record_greeting now identity reg) = sessions reg
   \<and> room_lock_locked (record_greeting now identity reg) = room_lock_locked reg"
proof -
  have 1: "\<not> room_lock_locked reg \<longrightarrow> exclusive (run_schedule schedule (reg, map task_of ops))"
  proof
    assume "\<not> room_lock_locked reg"
    then have "exclusive (reg, map task_of ops)" by (rule exclusive_start)
    moreover have "\<forall>t \<in> set (snd (reg, map task_of ops)). task_rest t"
      by (auto simp: task_rest_task_of)
    ultimately show "exclusive (run_schedule schedule (reg, map task_of ops))"
      using run_schedule_keeps by blast
  qed
  have 2: "room_lock_locked reg \<longrightarrow>
        register now room identity name s a m reg = None \<and> unregister room reg = None"
    by (simp add: register_locked unregister_locked)
  have 3: "register_task now room identity name s a m =
       [Acquire, StoreSession room (new_session now room identity name s a m), Release]"
    "unregister_task room = [Acquire, PopSession room, Release]"
    "Acquire \<notin> set (record_greeting_task now identity)"
    by (simp_all add: register_task_def unregister_task_def record_greeting_task_def
        with_room_lock_def)
  have 4: "run_task (record_greeting_task now identity) reg = Some (record_greeting now identity reg)"
    "greeting_times (record_greeting now identity reg)
       = AList.update identity now (greeting_times reg)"
    "sessions (record_greeting now identity reg) = sessions reg"
    "room_lock_locked (record_greeting now identity reg) = room_lock_locked reg"
    by (simp_all add: record_greeting_task_def record_greeting_def enabled_def)
  from 1 2 3 4 show ?thesis by blast
qed

lemma three_tasks_run:
  "run_schedule [0, 1, 2, 0, 1, 0, 1, 1] (registry_ab, three_tasks) =
     (\<lparr> sessions =
          [(''A'', \<lparr> room_name = ''A'', user_identity = ''u3'', user_name = ''Cy'', created_at = 3,
                    agent_session = None, agent = None, metadata = [] \<rparr>)],
        room_lock_locked = True, greeting_times = [(''u1'', 5)] \<rparr>,
      [[], [Release], []])"
  by (simp add: run_schedule_def step_task_def three_tasks_def registry_ab_def
      register_task_def unregister_task_def record_greeting_task_def with_room_lock_def
      new_session_def enabled_def)

theorem registry_lock_discipline_witness:
  "\<not> room_lock_locked registry_ab
   \<and> snd (run_schedule [0, 1, 2, 0, 1, 0, 1, 1] (registry_ab, three_tasks)) = [[], [Release], []]
   \<and> room_lock_locked (fst (run_schedule [0, 1, 2, 0, 1, 0, 1, 1] (registry_ab, three_tasks)))
   \<and> holding (snd (run_schedule [0, 1, 2, 0, 1, 0, 1, 1] (registry_ab, three_tasks)) ! 1)
   \<and> room_lock_locked locked_registry
   \<and> register 1 ''A'' ''u1'' ''Ann'' None None None locked_registry = None
   \<and> unregister ''A'' locked_registry = None
   \<and> greeting_times (record_greeting 1 ''u1'' locked_registry) = [(''u1'', 1)]"
proof -
  have l: "room_lock_locked locked_registry" "greeting_times locked_registry = []"
    by (simp_all add: locked_registry_def new_registry_def)
  have f: "\<not> room_lock_locked registry_ab"
    by (simp add: registry_ab_def)
  note A = registry_lock_discipline
    [of locked_registry "[]" "[]" 1 "''A''" "''u1''" "''Ann''" None None None]
  note B = registry_lock_discipline
    [of registry_ab "[0, 1, 2, 0, 1, 0, 1, 1]"
        "[Register 3 ''A'' ''u3'' ''Cy'' None None None, Unregister ''B'', RecordGreeting 5 ''u1'']"
        3 "''A''" "''u3''" "''Cy''" None None None]
  from A l have a12: "register 1 ''A'' ''u1'' ''Ann'' None None None locked_registry = None"
    "unregister ''A'' locked_registry = None"
    by blast+
  from A have "greeting_times (record_greeting 1 ''u1'' locked_registry)
      = AList.update ''u1'' 1 (greeting_times locked_registry)"
    by blast
  with l have a3: "greeting_times (record_greeting 1 ''u1'' locked_registry) = [(''u1'', 1)]"
    by simp
  note a = a12 a3
  from B f have "exclusive (run_schedule [0, 1, 2, 0, 1, 0, 1, 1] (registry_ab, map task_of
      [Register 3 ''A'' ''u3'' ''Cy'' None None None, Unregister ''B'', RecordGreeting 5 ''u1'']))"
    by blast
  then have "exclusive (run_schedule [0, 1, 2, 0, 1, 0, 1, 1] (registry_ab, three_tasks))"
    by (simp only: three_tasks_def)
  then have "room_lock_locked (fst (run_schedule [0, 1, 2, 0, 1, 0, 1, 1] (registry_ab, three_tasks)))
      \<longleftrightarrow> (\<exists>i < length (snd (run_schedule [0, 1, 2, 0, 1, 0, 1, 1] (registry_ab, three_tasks))).
            holding (snd (run_schedule [0, 1, 2, 0, 1, 0, 1, 1] (registry_ab, three_tasks)) ! i))"
    by (simp add: exclusive_def)
  moreover have h: "holding (snd (run_schedule [0, 1, 2, 0, 1, 0, 1, 1] (registry_ab, three_tasks)) ! 1)"
    unfolding three_tasks_run by (simp add: holding_def)
  moreover have len: "snd (run_schedule [0, 1, 2, 0, 1, 0, 1, 1] (registry_ab, three_tasks))
      = [[], [Release], []]"
    unfolding three_tasks_run by simp
  ultimately have lk: "room_lock_locked (fst (run_schedule [0, 1, 2, 0, 1, 0, 1, 1] (registry_ab, three_tasks)))"
    by (metis One_nat_def length_Cons lessI less_SucI list.size(3) nth_Cons_Suc)
  from l f a h len lk show ?thesis by blast
qed

end
